theory Spec2Isabelle
  imports Main "HOL-Library.Word"
begin

unbundle bit_operations_syntax

section \<open>Data model\<close>

text \<open>
  A JavaScript string is a sequence of 16-bit code units; \<open>charCodeAt\<close>, \<open>length\<close>,
  \<open>substring\<close> and the regular expressions of the library all work on code units.
  A byte is an 8-bit word.
\<close>

type_synonym jsstring = "16 word list"
type_synonym byte = "8 word"

text \<open>An ASCII string literal of the source, as code units.\<close>

definition js :: "string \<Rightarrow> jsstring" where
  "js s = map (\<lambda>c. of_nat (of_char c)) s"

text \<open>
  The exceptions of the program: \<open>throw new Error(message)\<close> in the library itself, the
  \<open>InvalidCharacterError\<close> of \<open>atob\<close> and \<open>btoa\<close>, the \<open>TypeError\<close> of a fatal
  \<open>TextDecoder\<close>, and the \<open>RangeError\<close> of a call with more arguments than the engine
  accepts.
\<close>

datatype error = Error jsstring | InvalidCharacterError | TypeError | RangeError

text \<open>
  The \<open>TypedArray\<close> union of the source. A typed array is a view of an \<open>ArrayBuffer\<close>: it
  holds a reference to the buffer, a byte offset and a number of elements. The buffers
  live in a store, addressed by their position; a view is a value that names its buffer
  by address, so two views of one buffer share its bytes.
\<close>

datatype array_kind =
  Int8Array | Uint8Array | Uint8ClampedArray | Int16Array | Uint16Array | Int32Array | Uint32Array

record typed_array =
  kind :: array_kind
  buffer :: nat
  byteOffset :: nat
  length_elems :: nat

type_synonym heap = "byte list list"

text \<open>
  The bytes of the buffer at an address. A program cannot hold a reference to a buffer
  that was never allocated; at such an address the model reads the empty buffer.
\<close>

definition buffer_bytes :: "heap \<Rightarrow> nat \<Rightarrow> byte list" where
  "buffer_bytes h a = (if a < length h then h ! a else [])"

definition byteLength :: "heap \<Rightarrow> nat \<Rightarrow> nat" where
  "byteLength h a = length (buffer_bytes h a)"

text \<open>\<open>new ArrayBuffer\<close> with the given contents: the store grows by one buffer.\<close>

definition alloc :: "heap \<Rightarrow> byte list \<Rightarrow> heap \<times> nat" where
  "alloc h bs = (h @ [bs], length h)"

text \<open>
  \<open>new Uint8Array(buffer)\<close>: a byte view of the whole of an existing buffer, from offset 0
  to its byte length. Nothing is allocated in the store and no byte is copied.
\<close>

definition new_Uint8Array_of_buffer :: "heap \<Rightarrow> nat \<Rightarrow> typed_array" where
  "new_Uint8Array_of_buffer h a =
     \<lparr>kind = Uint8Array, buffer = a, byteOffset = 0, length_elems = byteLength h a\<rparr>"

text \<open>
  A new \<open>Uint8Array\<close> whose elements are \<open>bs\<close>: the array that \<open>new Uint8Array(n)\<close>
  followed by the writes of a loop leaves behind, or \<open>new Uint8Array(numbers)\<close>. It owns
  a fresh buffer.
\<close>

definition new_Uint8Array :: "heap \<Rightarrow> byte list \<Rightarrow> heap \<times> typed_array" where
  "new_Uint8Array h bs =
     (let (h', a) = alloc h bs
      in (h', \<lparr>kind = Uint8Array, buffer = a, byteOffset = 0, length_elems = length bs\<rparr>))"

text \<open>
  The elements of a \<open>Uint8Array\<close>, in index order: the window of its buffer that starts
  at the byte offset and has the view's length.
\<close>

definition elements :: "heap \<Rightarrow> typed_array \<Rightarrow> byte list" where
  "elements h ta = take (length_elems ta) (drop (byteOffset ta) (buffer_bytes h (buffer ta)))"

section \<open>Buffer normalization\<close>

text \<open>
  \<open>typedArrayToUint8Array\<close>: a \<open>Uint8Array\<close> is returned as it is; for every other kind
  a new byte view of the whole underlying buffer is made (the byte offset and length of
  the given view are not passed on).
\<close>

definition typedArrayToUint8Array :: "heap \<Rightarrow> typed_array \<Rightarrow> typed_array" where
  "typedArrayToUint8Array h typedArray =
     (if kind typedArray = Uint8Array then typedArray
      else new_Uint8Array_of_buffer h (buffer typedArray))"

section \<open>The JavaScript operations the library uses\<close>

text \<open>
  A JavaScript number that the library reads from a string is a code unit or \<open>NaN\<close>; it is
  modelled as a \<open>nat option\<close> with \<open>None\<close> for \<open>NaN\<close>. A comparison with \<open>NaN\<close> is
  false, and \<open>NaN\<close> written to an integer typed array is stored as 0; a number written to
  a \<open>Uint8Array\<close> or \<open>Uint16Array\<close> is reduced modulo \<open>2^8\<close> or \<open>2^16\<close>.
\<close>

type_synonym number = "nat option"

definition charAt :: "jsstring \<Rightarrow> nat \<Rightarrow> jsstring" where
  "charAt s i = (if i < length s then [s ! i] else [])"

definition charCodeAt :: "jsstring \<Rightarrow> nat \<Rightarrow> number" where
  "charCodeAt s i = (if i < length s then Some (unat (s ! i)) else None)"

definition substring :: "jsstring \<Rightarrow> nat \<Rightarrow> nat \<Rightarrow> jsstring" where
  "substring s start end =
     (let a = min start (length s); b = min end (length s)
      in take (max a b - min a b) (drop (min a b) s))"

definition greater :: "number \<Rightarrow> nat \<Rightarrow> bool" where
  "greater x n = (case x of None \<Rightarrow> False | Some v \<Rightarrow> v > n)"

definition isNaN :: "number \<Rightarrow> bool" where
  "isNaN x = (x = None)"

definition ToUint8 :: "number \<Rightarrow> byte" where
  "ToUint8 x = (case x of None \<Rightarrow> 0 | Some v \<Rightarrow> of_nat v)"

definition ToUint16 :: "number \<Rightarrow> 16 word" where
  "ToUint16 x = (case x of None \<Rightarrow> 0 | Some v \<Rightarrow> of_nat v)"

text \<open>
  \<open>String.fromCharCode(...typedArray)\<close>: the spread passes every element of the array as
  an argument of its own to one call. An engine accepts only so many arguments in a call
  and throws \<open>RangeError\<close> when there are more; the largest number it accepts,
  \<open>maxArguments\<close>, differs between engines (65536 in JavaScriptCore, bound by the size of
  the stack in V8) and is a parameter of the model. Within the limit the result has one
  code unit for each element.
\<close>

definition fromCharCode :: "nat \<Rightarrow> byte list \<Rightarrow> error + jsstring" where
  "fromCharCode maxArguments bs =
     (if maxArguments < length bs then Inl RangeError else Inr (map ucast bs))"

text \<open>
  \<open>s.replace(/c/g, r)\<close> for a pattern that matches the single code unit \<open>c\<close>, and for a
  pattern that matches every code unit of a class.
\<close>

definition replace_all :: "(16 word \<Rightarrow> bool) \<Rightarrow> jsstring \<Rightarrow> jsstring \<Rightarrow> jsstring" where
  "replace_all p r s = concat (map (\<lambda>c. if p c then r else [c]) s)"

text \<open>
  The white space of ECMAScript, matched by \<open>\s\<close> and trimmed by the conversion of a string
  to a number: the \<open>WhiteSpace\<close> and \<open>LineTerminator\<close> code points.
\<close>

definition isWhiteSpace :: "16 word \<Rightarrow> bool" where
  "isWhiteSpace c \<longleftrightarrow>
     c \<in> {0x09, 0x0A, 0x0B, 0x0C, 0x0D, 0x20, 0xA0, 0x1680, 0x2028, 0x2029, 0x202F, 0x205F,
          0x3000, 0xFEFF}
     \<or> (0x2000 \<le> c \<and> c \<le> 0x200A)"

text \<open>
  \<open>n.toString(radix)\<close> of a non-negative integer, for a radix from 2 to 36: its digits
  without leading zeros, letters in lower case.
\<close>

definition digit_char :: "nat \<Rightarrow> 16 word" where
  "digit_char d = (if d < 10 then of_nat (48 + d) else of_nat (87 + d))"

function toString :: "nat \<Rightarrow> nat \<Rightarrow> jsstring" where
  "toString radix n =
     (if radix < 2 \<or> n < radix then [digit_char n]
      else toString radix (n div radix) @ [digit_char (n mod radix)])"
  by pat_completeness auto
termination
  by (relation "measure (\<lambda>(radix, n). n)") auto

declare toString.simps [simp del]

text \<open>\<open>s.padStart(targetLength, padString)\<close>.\<close>

definition padStart :: "nat \<Rightarrow> jsstring \<Rightarrow> jsstring \<Rightarrow> jsstring" where
  "padStart targetLength padString s =
     (if targetLength \<le> length s \<or> padString = [] then s
      else take (targetLength - length s)
             (concat (replicate (targetLength - length s) padString)) @ s)"

text \<open>
  \<open>Number("0b" + digits)\<close>: white space at both ends is trimmed, and what is left must be
  \<open>0b\<close> followed by at least one binary digit and nothing else; any other text is \<open>NaN\<close>.
  The text starts with \<open>0\<close>, so only its end can be trimmed.
\<close>

definition isBinaryDigit :: "16 word \<Rightarrow> bool" where
  "isBinaryDigit c \<longleftrightarrow> c = 0x30 \<or> c = 0x31"

definition binary_value :: "jsstring \<Rightarrow> nat" where
  "binary_value ds = foldl (\<lambda>acc c. 2 * acc + (if c = 0x31 then 1 else 0)) 0 ds"

definition Number_0b :: "jsstring \<Rightarrow> number" where
  "Number_0b digits =
     (let ds = rev (dropWhile isWhiteSpace (rev digits))
      in if ds \<noteq> [] \<and> list_all isBinaryDigit ds then Some (binary_value ds) else None)"

subsection \<open>Loops that fill an array\<close>

text \<open>
  Every decoding loop of the library has the shape
  \<^verbatim>\<open>for (let i = 0; i < n; i++) { ... throw ... ; typedArray[i] = v; }\<close>.
  \<open>for_loop n body i arr\<close> runs it from index \<open>i\<close>: \<open>body i\<close> is the value the iteration
  stores or the error it throws. It returns the final index with the array. A write
  past the end of a typed array is ignored, as \<open>arr[i := v]\<close> is.
\<close>

function for_loop ::
  "nat \<Rightarrow> (nat \<Rightarrow> error + 'a) \<Rightarrow> nat \<Rightarrow> 'a list \<Rightarrow> error + (nat \<times> 'a list)" where
  "for_loop n body i arr =
     (if i < n then
        (case body i of
           Inl e \<Rightarrow> Inl e
         | Inr v \<Rightarrow> for_loop n body (Suc i) (arr[i := v]))
      else Inr (i, arr))"
  by pat_completeness auto
termination
  by (relation "measure (\<lambda>(n, body, i, arr). n - i)") auto

declare for_loop.simps [simp del]

section \<open>Codecs\<close>

subsection \<open>Raw binary / Latin-1\<close>

definition binaryToTypedArray :: "heap \<Rightarrow> jsstring \<Rightarrow> error + (heap \<times> typed_array)" where
  "binaryToTypedArray h binary =
     (case for_loop (length binary)
             (\<lambda>i. let code = charCodeAt binary i
                  in if greater code 255
                     then Inl (Error (js ''Invalid binary character : '' @ binary))
                     else Inr (ToUint8 code))
             0 (replicate (length binary) 0) of
        Inl e \<Rightarrow> Inl e
      | Inr (i, typedArray) \<Rightarrow> Inr (new_Uint8Array h typedArray))"

definition latin1ToTypedArray :: "heap \<Rightarrow> jsstring \<Rightarrow> error + (heap \<times> typed_array)" where
  "latin1ToTypedArray = binaryToTypedArray"

definition typedArrayToBinary :: "nat \<Rightarrow> heap \<Rightarrow> typed_array \<Rightarrow> error + jsstring" where
  "typedArrayToBinary maxArguments h typedArray =
     fromCharCode maxArguments (elements h (typedArrayToUint8Array h typedArray))"

definition typedArrayToLatin1 :: "nat \<Rightarrow> heap \<Rightarrow> typed_array \<Rightarrow> error + jsstring" where
  "typedArrayToLatin1 = typedArrayToBinary"

subsection \<open>Bit strings\<close>

definition binaryStringToTypedArray :: "heap \<Rightarrow> jsstring \<Rightarrow> error + (heap \<times> typed_array)" where
  "binaryStringToTypedArray h binary =
     (let n = (length binary + 7) div 8
      in case for_loop n
             (\<lambda>i. let base10 = Number_0b (substring binary (i * 8) (i * 8 + 8))
                  in if isNaN base10
                     then Inl (Error (js ''Binary string must only contain 0 or 1''))
                     else Inr (ToUint8 base10))
             0 (replicate n 0) of
        Inl e \<Rightarrow> Inl e
      | Inr (i, typedArray) \<Rightarrow> Inr (new_Uint8Array h typedArray))"

definition typedArrayToBinaryString :: "heap \<Rightarrow> typed_array \<Rightarrow> jsstring" where
  "typedArrayToBinaryString h typedArray =
     concat (map (\<lambda>byte. padStart 8 (js ''0'') (toString 2 (unat byte)))
                 (elements h (typedArrayToUint8Array h typedArray)))"

subsection \<open>Hexadecimal\<close>

definition HEX_MAP :: "jsstring \<rightharpoonup> nat" where
  "HEX_MAP = map_of
     [(js ''0'', 0), (js ''1'', 1), (js ''2'', 2), (js ''3'', 3), (js ''4'', 4),
      (js ''5'', 5), (js ''6'', 6), (js ''7'', 7), (js ''8'', 8), (js ''9'', 9),
      (js ''a'', 10), (js ''b'', 11), (js ''c'', 12), (js ''d'', 13), (js ''e'', 14),
      (js ''f'', 15),
      (js ''A'', 10), (js ''B'', 11), (js ''C'', 12), (js ''D'', 13), (js ''E'', 14),
      (js ''F'', 15)]"

text \<open>
  One iteration of the loop of \<open>hexToTypedArray\<close>. The empty string that \<open>charAt\<close> returns
  past the end is falsy; any one-character string is truthy.
\<close>

definition hex_byte :: "jsstring \<Rightarrow> nat \<Rightarrow> error + byte" where
  "hex_byte hex i =
     (let (firstChar, secondChar) =
            (if charAt hex (i * 2 + 1) \<noteq> []
             then (charAt hex (i * 2), charAt hex (i * 2 + 1))
             else (js ''0'', charAt hex (i * 2)))
      in case (HEX_MAP firstChar, HEX_MAP secondChar) of
           (Some a, Some b) \<Rightarrow> Inr (of_nat (push_bit 4 a OR b))
         | _ \<Rightarrow> Inl (Error (js ''Hex must only contain digits and letters a to f'')))"

definition hexToTypedArray :: "heap \<Rightarrow> jsstring \<Rightarrow> error + (heap \<times> typed_array)" where
  "hexToTypedArray h hex =
     (let n = (length hex + 1) div 2
      in case for_loop n (hex_byte hex) 0 (replicate n 0) of
        Inl e \<Rightarrow> Inl e
      | Inr (i, bytes) \<Rightarrow>
          Inr (if i = length bytes then new_Uint8Array h bytes
               else new_Uint8Array h (take i bytes)))"

definition typedArrayToHex :: "heap \<Rightarrow> typed_array \<Rightarrow> jsstring" where
  "typedArrayToHex h typedArray =
     concat (map (\<lambda>byte. padStart 2 (js ''0'') (toString 16 (unat byte)))
                 (elements h (typedArrayToUint8Array h typedArray)))"

subsection \<open>Base64\<close>

text \<open>
  \<open>btoa\<close> and \<open>atob\<close> are functions of the host (HTML Standard, section "Base64 utility
  methods"). \<open>btoa\<close> throws \<open>InvalidCharacterError\<close> when a code unit exceeds \<open>0xFF\<close> and
  otherwise encodes the code units as bytes in Base64 with padding (RFC 4648, section 4).
  \<open>atob\<close> is the forgiving-base64 decode of the Infra Standard.
\<close>

definition base64_alphabet :: jsstring where
  "base64_alphabet = js ''ABCDEFGHIJKLMNOPQRSTUVWXYZabcdefghijklmnopqrstuvwxyz0123456789+/''"

definition base64_char :: "nat \<Rightarrow> 16 word" where
  "base64_char i = base64_alphabet ! i"

definition base64_index :: "16 word \<Rightarrow> nat option" where
  "base64_index c = map_of (zip base64_alphabet [0..<64]) c"

fun base64_encode :: "nat list \<Rightarrow> jsstring" where
  "base64_encode [] = []"
| "base64_encode [a] =
     [base64_char (a div 4), base64_char ((a mod 4) * 16), 0x3D, 0x3D]"
| "base64_encode [a, b] =
     [base64_char (a div 4), base64_char ((a mod 4) * 16 + b div 16),
      base64_char ((b mod 16) * 4), 0x3D]"
| "base64_encode (a # b # c # rest) =
     [base64_char (a div 4), base64_char ((a mod 4) * 16 + b div 16),
      base64_char ((b mod 16) * 4 + c div 64), base64_char (c mod 64)]
     @ base64_encode rest"

definition btoa :: "jsstring \<Rightarrow> error + jsstring" where
  "btoa data =
     (if list_ex (\<lambda>c. c > 0xFF) data then Inl InvalidCharacterError
      else Inr (base64_encode (map unat data)))"

definition isAsciiWhitespace :: "16 word \<Rightarrow> bool" where
  "isAsciiWhitespace c \<longleftrightarrow> c \<in> {0x09, 0x0A, 0x0C, 0x0D, 0x20}"

text \<open>Step 2 of forgiving-base64 decode: one or two \<open>=\<close> at the end are removed.\<close>

definition strip_padding :: "jsstring \<Rightarrow> jsstring" where
  "strip_padding d =
     (if 2 \<le> length d \<and> drop (length d - 2) d = [0x3D, 0x3D] then take (length d - 2) d
      else if 1 \<le> length d \<and> drop (length d - 1) d = [0x3D] then take (length d - 1) d
      else d)"

text \<open>
  Steps 5 to 10: every four 6-bit values give three bytes; of a rest of two values
  (12 bits) the last four bits are dropped, of a rest of three (18 bits) the last two.
\<close>

fun decode_sextets :: "nat list \<Rightarrow> byte list" where
  "decode_sextets (s1 # s2 # s3 # s4 # rest) =
     [of_nat (s1 * 4 + s2 div 16), of_nat ((s2 mod 16) * 16 + s3 div 4),
      of_nat ((s3 mod 4) * 64 + s4)] @ decode_sextets rest"
| "decode_sextets [s1, s2, s3] =
     [of_nat (s1 * 4 + s2 div 16), of_nat ((s2 mod 16) * 16 + s3 div 4)]"
| "decode_sextets [s1, s2] = [of_nat (s1 * 4 + s2 div 16)]"
| "decode_sextets _ = []"

definition forgiving_base64_decode :: "jsstring \<Rightarrow> byte list option" where
  "forgiving_base64_decode data =
     (let d1 = filter (\<lambda>c. \<not> isAsciiWhitespace c) data;
          d2 = (if length d1 mod 4 = 0 then strip_padding d1 else d1)
      in if length d2 mod 4 = 1 then None
         else if list_ex (\<lambda>c. base64_index c = None) d2 then None
         else Some (decode_sextets (map (\<lambda>c. the (base64_index c)) d2)))"

definition atob :: "jsstring \<Rightarrow> error + jsstring" where
  "atob data =
     (case forgiving_base64_decode data of
        None \<Rightarrow> Inl InvalidCharacterError
      | Some bytes \<Rightarrow> Inr (map ucast bytes))"

text \<open>\<open>s.split("")\<close>: the one-unit strings of \<open>s\<close>.\<close>

definition split_units :: "jsstring \<Rightarrow> jsstring list" where
  "split_units s = map (\<lambda>c. [c]) s"

definition asciiToTypedArray :: "heap \<Rightarrow> jsstring \<Rightarrow> error + (heap \<times> typed_array)" where
  "asciiToTypedArray h ascii =
     (case atob ascii of
        Inl e \<Rightarrow> Inl e
      | Inr s \<Rightarrow>
          Inr (new_Uint8Array h (map (\<lambda>char. ToUint8 (charCodeAt char 0)) (split_units s))))"

definition base64ToTypedArray :: "heap \<Rightarrow> jsstring \<Rightarrow> error + (heap \<times> typed_array)" where
  "base64ToTypedArray = asciiToTypedArray"

definition asciiUrlToTypedArray :: "heap \<Rightarrow> jsstring \<Rightarrow> error + (heap \<times> typed_array)" where
  "asciiUrlToTypedArray h asciiUrl =
     asciiToTypedArray h
       (replace_all isWhiteSpace []
         (replace_all (\<lambda>c. c = 0x5F) (js ''/'')
           (replace_all (\<lambda>c. c = 0x2D) (js ''+'') asciiUrl)))"

definition base64UrlToTypedArray :: "heap \<Rightarrow> jsstring \<Rightarrow> error + (heap \<times> typed_array)" where
  "base64UrlToTypedArray = asciiUrlToTypedArray"

definition typedArrayToAscii :: "nat \<Rightarrow> heap \<Rightarrow> typed_array \<Rightarrow> error + jsstring" where
  "typedArrayToAscii maxArguments h typedArray =
     (case typedArrayToBinary maxArguments h typedArray of
        Inl e \<Rightarrow> Inl e
      | Inr binary \<Rightarrow> btoa binary)"

definition typedArrayToBase64 :: "nat \<Rightarrow> heap \<Rightarrow> typed_array \<Rightarrow> error + jsstring" where
  "typedArrayToBase64 = typedArrayToAscii"

definition typedArrayToAsciiUrl :: "nat \<Rightarrow> heap \<Rightarrow> typed_array \<Rightarrow> error + jsstring" where
  "typedArrayToAsciiUrl maxArguments h typedArray =
     (case typedArrayToAscii maxArguments h typedArray of
        Inl e \<Rightarrow> Inl e
      | Inr s \<Rightarrow>
          Inr (replace_all (\<lambda>c. c = 0x2F) (js ''_'')
                (replace_all (\<lambda>c. c = 0x2B) (js ''-'')
                  (replace_all (\<lambda>c. c = 0x3D) [] s))))"

definition typedArrayToBase64Url :: "nat \<Rightarrow> heap \<Rightarrow> typed_array \<Rightarrow> error + jsstring" where
  "typedArrayToBase64Url = typedArrayToAsciiUrl"

subsection \<open>Text encodings of the host\<close>

text \<open>
  \<open>TextEncoder\<close> and \<open>TextDecoder\<close> are functions of the host (Encoding Standard). A decoder
  yields code points, or no result at the first error since the library creates every
  decoder with \<open>fatal: true\<close>; the code points become the code units of the string.
\<close>

definition code_point_units :: "nat \<Rightarrow> jsstring" where
  "code_point_units cp =
     (if cp < 0x10000 then [of_nat cp]
      else [of_nat (0xD800 + (cp - 0x10000) div 0x400),
            of_nat (0xDC00 + (cp - 0x10000) mod 0x400)])"

definition units_of_code_points :: "nat list \<Rightarrow> jsstring" where
  "units_of_code_points cps = concat (map code_point_units cps)"

text \<open>A byte order mark at the start of the output of a UTF-8 or UTF-16 decoder is dropped.\<close>

definition drop_BOM :: "nat list \<Rightarrow> nat list" where
  "drop_BOM cps = (case cps of [] \<Rightarrow> [] | cp # rest \<Rightarrow> if cp = 0xFEFF then rest else cps)"

text \<open>
  The index of windows-1252: a pointer from 0 to 127 (the byte minus \<open>0x80\<close>) gives a code
  point. Every pointer has an entry; the bytes \<open>0x81\<close>, \<open>0x8D\<close>, \<open>0x8F\<close>, \<open>0x90\<close> and \<open>0x9D\<close>
  have the control characters of the same value.
\<close>

definition index_windows_1252 :: "nat \<Rightarrow> nat option" where
  "index_windows_1252 pointer =
     (if pointer < 32 then
        Some ([0x20AC, 0x0081, 0x201A, 0x0192, 0x201E, 0x2026, 0x2020, 0x2021,
               0x02C6, 0x2030, 0x0160, 0x2039, 0x0152, 0x008D, 0x017D, 0x008F,
               0x0090, 0x2018, 0x2019, 0x201C, 0x201D, 0x2022, 0x2013, 0x2014,
               0x02DC, 0x2122, 0x0161, 0x203A, 0x0153, 0x009D, 0x017E, 0x0178] ! pointer)
      else if pointer < 128 then Some (0x80 + pointer)
      else None)"

text \<open>The single-byte decoder: an ASCII byte is its own code point, any other byte is
  looked up in the index, and a pointer without an entry is an error.\<close>

fun single_byte_decoder :: "(nat \<Rightarrow> nat option) \<Rightarrow> byte list \<Rightarrow> nat list option" where
  "single_byte_decoder index [] = Some []"
| "single_byte_decoder index (b # bs) =
     (if unat b < 0x80 then map_option (Cons (unat b)) (single_byte_decoder index bs)
      else case index (unat b - 0x80) of
             None \<Rightarrow> None
           | Some cp \<Rightarrow> map_option (Cons cp) (single_byte_decoder index bs))"

text \<open>
  The UTF-8 decoder, with its state: the code point under construction, the bytes seen
  and needed, and the bounds of the next continuation byte.
\<close>

fun utf8_decoder :: "nat \<Rightarrow> nat \<Rightarrow> nat \<Rightarrow> nat \<Rightarrow> nat \<Rightarrow> byte list \<Rightarrow> nat list option" where
  "utf8_decoder cp seen needed lower upper [] = (if needed \<noteq> 0 then None else Some [])"
| "utf8_decoder cp seen needed lower upper (b # bs) =
     (let byte = unat b in
      if needed = 0 then
        (if byte \<le> 0x7F then map_option (Cons byte) (utf8_decoder 0 0 0 0x80 0xBF bs)
         else if 0xC2 \<le> byte \<and> byte \<le> 0xDF then utf8_decoder (byte AND 0x1F) 0 1 0x80 0xBF bs
         else if 0xE0 \<le> byte \<and> byte \<le> 0xEF then
           utf8_decoder (byte AND 0xF) 0 2
             (if byte = 0xE0 then 0xA0 else 0x80) (if byte = 0xED then 0x9F else 0xBF) bs
         else if 0xF0 \<le> byte \<and> byte \<le> 0xF4 then
           utf8_decoder (byte AND 0x7) 0 3
             (if byte = 0xF0 then 0x90 else 0x80) (if byte = 0xF4 then 0x8F else 0xBF) bs
         else None)
      else if byte < lower \<or> upper < byte then None
      else
        (let cp' = push_bit 6 cp OR (byte AND 0x3F) in
         if Suc seen \<noteq> needed then utf8_decoder cp' (Suc seen) needed 0x80 0xBF bs
         else map_option (Cons cp') (utf8_decoder 0 0 0 0x80 0xBF bs)))"

text \<open>
  The UTF-16 decoder for the label \<open>utf-16\<close>, which is UTF-16LE. Its state is the leading
  byte and the leading surrogate, when there is one.
\<close>

fun utf16_decoder :: "nat option \<Rightarrow> nat option \<Rightarrow> byte list \<Rightarrow> nat list option" where
  "utf16_decoder lead_byte lead_surrogate [] =
     (if lead_byte \<noteq> None \<or> lead_surrogate \<noteq> None then None else Some [])"
| "utf16_decoder lead_byte lead_surrogate (b # bs) =
     (case lead_byte of
        None \<Rightarrow> utf16_decoder (Some (unat b)) lead_surrogate bs
      | Some l \<Rightarrow>
          (let unit = push_bit 8 (unat b) + l in
           case lead_surrogate of
             Some s \<Rightarrow>
               (if 0xDC00 \<le> unit \<and> unit \<le> 0xDFFF then
                  map_option (Cons (0x10000 + push_bit 10 (s - 0xD800) + (unit - 0xDC00)))
                    (utf16_decoder None None bs)
                else None)
           | None \<Rightarrow>
               (if 0xD800 \<le> unit \<and> unit \<le> 0xDBFF then utf16_decoder None (Some unit) bs
                else if 0xDC00 \<le> unit \<and> unit \<le> 0xDFFF then None
                else map_option (Cons unit) (utf16_decoder None None bs))))"

text \<open>\<open>new TextDecoder(label, { fatal: true }).decode(bytes)\<close> for the three labels used.\<close>

definition TextDecoder_windows1252 :: "byte list \<Rightarrow> error + jsstring" where
  "TextDecoder_windows1252 bytes =
     (case single_byte_decoder index_windows_1252 bytes of
        None \<Rightarrow> Inl TypeError
      | Some cps \<Rightarrow> Inr (units_of_code_points cps))"

definition TextDecoder_utf16 :: "byte list \<Rightarrow> error + jsstring" where
  "TextDecoder_utf16 bytes =
     (case utf16_decoder None None bytes of
        None \<Rightarrow> Inl TypeError
      | Some cps \<Rightarrow> Inr (units_of_code_points (drop_BOM cps)))"

definition TextDecoder_utf8 :: "byte list \<Rightarrow> error + jsstring" where
  "TextDecoder_utf8 bytes =
     (case utf8_decoder 0 0 0 0x80 0xBF bytes of
        None \<Rightarrow> Inl TypeError
      | Some cps \<Rightarrow> Inr (units_of_code_points (drop_BOM cps)))"

text \<open>
  \<open>new TextEncoder().encode(str)\<close>: the string is read as scalar values, a surrogate that
  is not part of a pair as \<open>U+FFFD\<close>, and each scalar value is written in UTF-8.
\<close>

definition isLeadSurrogate :: "16 word \<Rightarrow> bool" where
  "isLeadSurrogate u \<longleftrightarrow> 0xD800 \<le> u \<and> u \<le> 0xDBFF"

definition isTrailSurrogate :: "16 word \<Rightarrow> bool" where
  "isTrailSurrogate u \<longleftrightarrow> 0xDC00 \<le> u \<and> u \<le> 0xDFFF"

fun scalar_values :: "jsstring \<Rightarrow> nat list" where
  "scalar_values [] = []"
| "scalar_values [u] =
     (if isLeadSurrogate u \<or> isTrailSurrogate u then [0xFFFD] else [unat u])"
| "scalar_values (u # v # rest) =
     (if isLeadSurrogate u \<and> isTrailSurrogate v then
        (0x10000 + (unat u - 0xD800) * 0x400 + (unat v - 0xDC00)) # scalar_values rest
      else if isLeadSurrogate u \<or> isTrailSurrogate u then 0xFFFD # scalar_values (v # rest)
      else unat u # scalar_values (v # rest))"

definition utf8_bytes :: "nat \<Rightarrow> byte list" where
  "utf8_bytes cp =
     (if cp < 0x80 then [of_nat cp]
      else if cp < 0x800 then [of_nat (0xC0 + cp div 0x40), of_nat (0x80 + cp mod 0x40)]
      else if cp < 0x10000 then
        [of_nat (0xE0 + cp div 0x1000), of_nat (0x80 + cp div 0x40 mod 0x40),
         of_nat (0x80 + cp mod 0x40)]
      else
        [of_nat (0xF0 + cp div 0x40000), of_nat (0x80 + cp div 0x1000 mod 0x40),
         of_nat (0x80 + cp div 0x40 mod 0x40), of_nat (0x80 + cp mod 0x40)])"

definition TextEncoder_encode :: "jsstring \<Rightarrow> byte list" where
  "TextEncoder_encode str = concat (map utf8_bytes (scalar_values str))"

subsection \<open>Windows-1252\<close>

definition WINDOWS_1252_MAP :: "jsstring \<rightharpoonup> nat" where
  "WINDOWS_1252_MAP = map_of
     [([0x20AC], 128), ([0x201A], 130), ([0x0192], 131), ([0x201E], 132), ([0x2026], 133),
      ([0x2020], 134), ([0x2021], 135), ([0x02C6], 136), ([0x2030], 137), ([0x0160], 138),
      ([0x2039], 139), ([0x0152], 140), ([0x017D], 142), ([0x2018], 145), ([0x2019], 146),
      ([0x201C], 147), ([0x201D], 148), ([0x2022], 149), ([0x2013], 150), ([0x2014], 151),
      ([0x02DC], 152), ([0x2122], 153), ([0x0161], 154), ([0x203A], 155), ([0x0153], 156),
      ([0x017E], 158), ([0x0178], 159)]"

definition windows1252ToTypedArray :: "heap \<Rightarrow> jsstring \<Rightarrow> error + (heap \<times> typed_array)" where
  "windows1252ToTypedArray h string =
     (case for_loop (length string)
             (\<lambda>i. case WINDOWS_1252_MAP (charAt string i) of
                    Some v \<Rightarrow> Inr (ToUint8 (Some v))
                  | None \<Rightarrow>
                      (let code = charCodeAt string i
                       in if greater code 255
                          then Inl (Error (js ''Invalid windows-1252 character: ''
                                           @ charAt string i))
                          else Inr (ToUint8 code)))
             0 (replicate (length string) 0) of
        Inl e \<Rightarrow> Inl e
      | Inr (i, typedArray) \<Rightarrow> Inr (new_Uint8Array h typedArray))"

definition typedArrayToWindows1252 :: "heap \<Rightarrow> typed_array \<Rightarrow> error + jsstring" where
  "typedArrayToWindows1252 h typedArray =
     TextDecoder_windows1252 (elements h (typedArrayToUint8Array h typedArray))"

subsection \<open>UTF-16\<close>

text \<open>
  The two bytes of an element of a \<open>Uint16Array\<close> in its buffer, in the byte order of the
  platform (\<open>le\<close>: little-endian).
\<close>

definition u16_bytes :: "bool \<Rightarrow> 16 word \<Rightarrow> byte list" where
  "u16_bytes le w =
     (if le then [ucast w, ucast (drop_bit 8 w)] else [ucast (drop_bit 8 w), ucast w])"

text \<open>
  \<open>utf16ToTypedArray\<close> fills a \<open>Uint16Array\<close> and returns a byte view of its buffer.
\<close>

definition utf16ToTypedArray ::
  "bool \<Rightarrow> heap \<Rightarrow> jsstring \<Rightarrow> error + (heap \<times> typed_array)" where
  "utf16ToTypedArray le h string =
     (case for_loop (length string) (\<lambda>i. Inr (ToUint16 (charCodeAt string i)))
             0 (replicate (length string) 0) of
        Inl e \<Rightarrow> Inl e
      | Inr (i, typedArray) \<Rightarrow>
          (let (h', a) = alloc h (concat (map (u16_bytes le) typedArray))
           in Inr (h', new_Uint8Array_of_buffer h' a)))"

definition typedArrayToUtf16 :: "heap \<Rightarrow> typed_array \<Rightarrow> error + jsstring" where
  "typedArrayToUtf16 h typedArray =
     TextDecoder_utf16 (elements h (typedArrayToUint8Array h typedArray))"

subsection \<open>UTF-8\<close>

definition utf8ToTypedArray :: "heap \<Rightarrow> jsstring \<Rightarrow> heap \<times> typed_array" where
  "utf8ToTypedArray h string = new_Uint8Array h (TextEncoder_encode string)"

definition typedArrayToUtf8 :: "heap \<Rightarrow> typed_array \<Rightarrow> error + jsstring" where
  "typedArrayToUtf8 h typedArray =
     TextDecoder_utf8 (elements h (typedArrayToUint8Array h typedArray))"

section \<open>Dispatchers and the generic converter\<close>

text \<open>
  The \<open>Encoding\<close> type of the source is checked by the compiler only: at run time the
  label is any string, compared with the case labels of the \<open>switch\<close> by \<open>===\<close>.
\<close>

definition not_supported :: "jsstring \<Rightarrow> error" where
  "not_supported encoding = Error (js ''Encoding '' @ encoding @ js '' not supported.'')"

definition stringToTypedArray ::
  "bool \<Rightarrow> heap \<Rightarrow> jsstring \<Rightarrow> jsstring \<Rightarrow> error + (heap \<times> typed_array)" where
  "stringToTypedArray le h str encoding =
     (if encoding = js ''base2'' \<or> encoding = js ''binaryString''
        then binaryStringToTypedArray h str
      else if encoding = js ''binary'' \<or> encoding = js ''latin1''
        then binaryToTypedArray h str
      else if encoding = js ''base16'' \<or> encoding = js ''hex''
        then hexToTypedArray h str
      else if encoding = js ''base64'' \<or> encoding = js ''ascii''
        then asciiToTypedArray h str
      else if encoding = js ''base64Url'' \<or> encoding = js ''asciiUrl''
        then asciiUrlToTypedArray h str
      else if encoding = js ''windows1252'' \<or> encoding = js ''windows-1252''
        then windows1252ToTypedArray h str
      else if encoding = js ''utf16'' \<or> encoding = js ''utf-16''
        then utf16ToTypedArray le h str
      else if encoding = js ''utf8'' \<or> encoding = js ''utf-8''
        then Inr (new_Uint8Array h (TextEncoder_encode str))
      else Inl (not_supported encoding))"

definition typedArrayToString ::
  "nat \<Rightarrow> heap \<Rightarrow> typed_array \<Rightarrow> jsstring \<Rightarrow> error + jsstring" where
  "typedArrayToString maxArguments h typedArray encoding =
     (if encoding = js ''base2'' \<or> encoding = js ''binaryString''
        then Inr (typedArrayToBinaryString h typedArray)
      else if encoding = js ''binary'' \<or> encoding = js ''latin1''
        then typedArrayToBinary maxArguments h typedArray
      else if encoding = js ''base16'' \<or> encoding = js ''hex''
        then Inr (typedArrayToHex h typedArray)
      else if encoding = js ''base64'' \<or> encoding = js ''ascii''
        then typedArrayToAscii maxArguments h typedArray
      else if encoding = js ''base64Url'' \<or> encoding = js ''asciiUrl''
        then typedArrayToAsciiUrl maxArguments h typedArray
      else if encoding = js ''windows1252'' \<or> encoding = js ''windows-1252''
        then typedArrayToWindows1252 h typedArray
      else if encoding = js ''utf16'' \<or> encoding = js ''utf-16''
        then typedArrayToUtf16 h typedArray
      else if encoding = js ''utf8'' \<or> encoding = js ''utf-8''
        then typedArrayToUtf8 h typedArray
      else Inl (not_supported encoding))"

text \<open>
  The argument of \<open>convertEncoding\<close> is a string or a typed array, told apart by
  \<open>isString\<close>; the result is of the same sort.
\<close>

datatype js_value = Str jsstring | Arr typed_array

definition isString :: "js_value \<Rightarrow> bool" where
  "isString v = (case v of Str s \<Rightarrow> True | Arr a \<Rightarrow> False)"

definition convertEncoding ::
  "bool \<Rightarrow> nat \<Rightarrow> heap \<Rightarrow> js_value \<Rightarrow> jsstring \<Rightarrow> jsstring \<Rightarrow> error + (heap \<times> js_value)"
  where
  "convertEncoding le maxArguments h v encodingSource encodingOutput =
     (case v of
        Str s \<Rightarrow>
          (case stringToTypedArray le h s encodingSource of
             Inl e \<Rightarrow> Inl e
           | Inr (h', typedArray) \<Rightarrow>
               (case typedArrayToString maxArguments h' typedArray encodingOutput of
                  Inl e \<Rightarrow> Inl e
                | Inr out \<Rightarrow> Inr (h', Str out)))
      | Arr typedArray \<Rightarrow>
          (case typedArrayToString maxArguments h typedArray encodingSource of
             Inl e \<Rightarrow> Inl e
           | Inr text \<Rightarrow>
               (case stringToTypedArray le h text encodingOutput of
                  Inl e \<Rightarrow> Inl e
                | Inr (h', out) \<Rightarrow> Inr (h', Arr out))))"

section \<open>Notions used in the statements\<close>

text \<open>
  The closed set of labels: the \<open>Encoding\<close> type of the source.
\<close>

definition Encoding :: "jsstring list" where
  "Encoding =
     [js ''base2'', js ''binaryString'', js ''binary'', js ''latin1'', js ''base16'',
      js ''hex'', js ''base64'', js ''ascii'', js ''base64Url'', js ''asciiUrl'',
      js ''windows1252'', js ''windows-1252'', js ''utf16'', js ''utf-16'', js ''utf8'',
      js ''utf-8'']"

text \<open>The value of a hex digit in \<open>HEX_MAP\<close>.\<close>

definition hex_value :: "16 word \<Rightarrow> nat" where
  "hex_value c = the (HEX_MAP [c])"

text \<open>What a decoding function returns, read back: the error, or the elements of the array.\<close>

definition result_bytes :: "error + (heap \<times> typed_array) \<Rightarrow> error + byte list" where
  "result_bytes r = (case r of Inl e \<Rightarrow> Inl e | Inr (h, ta) \<Rightarrow> Inr (elements h ta))"

text \<open>
  The code unit that the windows-1252 decoder of the host gives for a byte.
\<close>

definition windows1252_unit :: "byte \<Rightarrow> 16 word" where
  "windows1252_unit b =
     (if unat b < 0x80 then ucast b else of_nat (the (index_windows_1252 (unat b - 0x80))))"

text \<open>What \<open>convertEncoding\<close> returns, read back: the error, the string, or the elements
  of the array.\<close>

definition result_value :: "error + (heap \<times> js_value) \<Rightarrow> error + (jsstring + byte list)" where
  "result_value r =
     (case r of
        Inl e \<Rightarrow> Inl e
      | Inr (h, Str s) \<Rightarrow> Inr (Inl s)
      | Inr (h, Arr ta) \<Rightarrow> Inr (Inr (elements h ta)))"

text \<open>
  The 6-bit values that \<open>base64_encode\<close> writes for a list of bytes, before they are
  turned into characters and padded.
\<close>

fun sextets :: "nat list \<Rightarrow> nat list" where
  "sextets [] = []"
| "sextets [a] = [a div 4, (a mod 4) * 16]"
| "sextets [a, b] = [a div 4, (a mod 4) * 16 + b div 16, (b mod 16) * 4]"
| "sextets (a # b # c # rest) =
     [a div 4, (a mod 4) * 16 + b div 16, (b mod 16) * 4 + c div 64, c mod 64] @ sextets rest"

section \<open>Properties\<close>

subsection \<open>Buffer normalization\<close>

lemma kind_typedArrayToUint8Array:
  "kind (typedArrayToUint8Array h x) = Uint8Array"
  by (simp add: typedArrayToUint8Array_def new_Uint8Array_of_buffer_def)

lemma buffer_typedArrayToUint8Array:
  "buffer (typedArrayToUint8Array h x) = buffer x"
  by (simp add: typedArrayToUint8Array_def new_Uint8Array_of_buffer_def)

text \<open>
  Claim C8. Buffer normalization is idempotent and is the identity on byte views: applied
  to its own result it returns that result; a \<open>Uint8Array\<close> is returned itself, the same
  view of the same buffer, and in every case the result is a byte view of the buffer of
  the argument, so no byte is copied. The function is total and has no error result: it
  never fails.
\<close>

theorem typedArrayToUint8Array_idempotent_identity:
  "typedArrayToUint8Array h (typedArrayToUint8Array h x) = typedArrayToUint8Array h x
   \<and> (kind x = Uint8Array \<longrightarrow> typedArrayToUint8Array h x = x)
   \<and> kind (typedArrayToUint8Array h x) = Uint8Array
   \<and> buffer (typedArrayToUint8Array h x) = buffer x"
  by (simp add: typedArrayToUint8Array_def new_Uint8Array_of_buffer_def)

theorem typedArrayToUint8Array_idempotent_identity_witness:
  "kind \<lparr>kind = Uint8Array, buffer = 0, byteOffset = 1, length_elems = 2\<rparr> = Uint8Array
   \<and> typedArrayToUint8Array [[1, 2, 3, 4]]
        \<lparr>kind = Uint8Array, buffer = 0, byteOffset = 1, length_elems = 2\<rparr>
      = \<lparr>kind = Uint8Array, buffer = 0, byteOffset = 1, length_elems = 2\<rparr>
   \<and> typedArrayToUint8Array [[1, 2, 3, 4]]
        (typedArrayToUint8Array [[1, 2, 3, 4]]
           \<lparr>kind = Int16Array, buffer = 0, byteOffset = 2, length_elems = 1\<rparr>)
      = \<lparr>kind = Uint8Array, buffer = 0, byteOffset = 0, length_elems = 4\<rparr>"
  using typedArrayToUint8Array_idempotent_identity
    [of "[[1, 2, 3, 4]]" "\<lparr>kind = Uint8Array, buffer = 0, byteOffset = 1, length_elems = 2\<rparr>"]
    typedArrayToUint8Array_idempotent_identity
    [of "[[1, 2, 3, 4]]" "\<lparr>kind = Int16Array, buffer = 0, byteOffset = 2, length_elems = 1\<rparr>"]
  by (simp add: typedArrayToUint8Array_def new_Uint8Array_of_buffer_def byteLength_def
      buffer_bytes_def)

subsection \<open>Loops and arrays\<close>

text \<open>A loop whose iterations all store a value fills the array with these values.\<close>

lemma for_loop_Inr:
  assumes "\<And>j. i \<le> j \<Longrightarrow> j < n \<Longrightarrow> body j = Inr (f j)" "i \<le> n" "n \<le> length arr"
  shows "for_loop n body i arr = Inr (n, take i arr @ map f [i..<n] @ drop n arr)"
  using assms
proof (induction "n - i" arbitrary: i arr)
  case 0
  then have "i = n" by simp
  then show ?case by (simp add: for_loop.simps)
next
  case (Suc k)
  then have lt: "i < n" by simp
  have b: "body i = Inr (f i)" using Suc.prems(1) [of i] lt by simp
  have IH: "for_loop n body (Suc i) (arr[i := f i])
        = Inr (n, take (Suc i) (arr[i := f i]) @ map f [Suc i..<n] @ drop n (arr[i := f i]))"
    using Suc.hyps(1) [of "Suc i" "arr[i := f i]"] Suc.hyps(2) Suc.prems lt by simp
  have t: "take (Suc i) (arr[i := f i]) = take i arr @ [f i]"
    using lt Suc.prems(3) by (simp add: take_Suc_conv_app_nth)
  have d: "drop n (arr[i := f i]) = drop n arr" using lt by simp
  show ?case
    using lt b IH t d by (subst for_loop.simps) (simp add: upt_conv_Cons)
qed

lemma for_loop_fill:
  assumes "\<And>j. j < n \<Longrightarrow> body j = Inr (f j)"
  shows "for_loop n body 0 (replicate n z) = Inr (n, map f [0..<n])"
  using for_loop_Inr [of 0 n body f "replicate n z"] assms by simp

lemma new_Uint8Array_props:
  "new_Uint8Array h bs = (h', ta) \<Longrightarrow>
     elements h' ta = bs \<and> kind ta = Uint8Array \<and> length_elems ta = length bs"
  by (auto simp: new_Uint8Array_def alloc_def elements_def buffer_bytes_def)

lemma result_bytes_new_Uint8Array: "result_bytes (Inr (new_Uint8Array h bs)) = Inr bs"
  by (simp add: result_bytes_def new_Uint8Array_def alloc_def elements_def buffer_bytes_def)

lemma typedArrayToUint8Array_Uint8Array:
  "kind ta = Uint8Array \<Longrightarrow> typedArrayToUint8Array h ta = ta"
  by (simp add: typedArrayToUint8Array_def)

lemma ucast_byte_unit: "c \<le> 0xFF \<Longrightarrow> (ucast (ucast c :: byte) :: 16 word) = c"
  by (simp add: word_le_nat_alt word_unat_eq_iff unsigned_ucast_eq unsigned_take_bit_eq
      take_bit_eq_mod unat_mod)

subsection \<open>Raw binary / Latin-1\<close>

lemma binaryToTypedArray_latin1:
  assumes "list_all (\<lambda>c. c \<le> 0xFF) s"
  shows "binaryToTypedArray h s = Inr (new_Uint8Array h (map ucast s))"
proof -
  have body: "\<And>j. j < length s \<Longrightarrow>
      (let code = charCodeAt s j
       in if greater code 255
          then Inl (Error (js ''Invalid binary character : '' @ s))
          else Inr (ToUint8 code)) = Inr (ucast (s ! j))"
  proof -
    fix j assume j: "j < length s"
    with assms have "s ! j \<le> 0xFF" by (simp add: list_all_length)
    then have "unat (s ! j) \<le> 255" by (simp add: word_le_nat_alt)
    with j show "?thesis j" by (simp add: charCodeAt_def greater_def ToUint8_def)
  qed
  have m: "map (\<lambda>j. ucast (s ! j)) [0..<length s] = (map ucast s :: byte list)"
    by (rule nth_equalityI) simp_all
  have loop: "for_loop (length s)
          (\<lambda>i. let code = charCodeAt s i
               in if greater code 255
                  then Inl (Error (js ''Invalid binary character : '' @ s))
                  else Inr (ToUint8 code))
          0 (replicate (length s) 0) = Inr (length s, map ucast s)"
    unfolding m [symmetric] by (rule for_loop_fill) (rule body)
  show ?thesis unfolding binaryToTypedArray_def loop by simp
qed

text \<open>
  \<open>typedArrayToBinary\<close> on the array that \<open>binaryToTypedArray\<close> returns: the string comes
  back when the array has no more elements than the engine accepts arguments, and the
  call throws \<open>RangeError\<close> otherwise.
\<close>

lemma typedArrayToBinary_binaryToTypedArray:
  assumes "list_all (\<lambda>c. c \<le> 0xFF) s"
  shows "\<exists>h' ta. binaryToTypedArray h s = Inr (h', ta)
           \<and> length_elems ta = length s \<and> length (elements h' ta) = length s
           \<and> typedArrayToBinary maxArguments h' ta
               = (if maxArguments < length s then Inl RangeError else Inr s)"
proof -
  obtain h' ta where new: "new_Uint8Array h (map ucast s) = (h', ta)"
    by (cases "new_Uint8Array h (map ucast s :: byte list)")
  note p = new_Uint8Array_props [OF new]
  have "map ucast (map ucast s :: byte list) = s"
    using assms by (intro nth_equalityI) (simp_all add: list_all_length ucast_byte_unit)
  then have "typedArrayToBinary maxArguments h' ta
      = (if maxArguments < length s then Inl RangeError else Inr s)"
    using p by (simp add: typedArrayToBinary_def typedArrayToUint8Array_Uint8Array
        fromCharCode_def)
  with p new show ?thesis
    using binaryToTypedArray_latin1 [OF assms, of h] by simp
qed

text \<open>
  Within the argument limit of the engine the Latin-1 codec round-trips every string
  whose code units are all at most 255.
\<close>

lemma latin1_text_round_trip_within_limit:
  assumes "list_all (\<lambda>c. c \<le> 0xFF) s" and "length s \<le> maxArguments"
  shows "\<exists>h' ta. binaryToTypedArray h s = Inr (h', ta)
           \<and> typedArrayToBinary maxArguments h' ta = Inr s
           \<and> length_elems ta = length s \<and> length (elements h' ta) = length s"
  using typedArrayToBinary_binaryToTypedArray [OF assms(1), of h maxArguments] assms(2)
  by auto

text \<open>
  Claim C10 says that the Latin-1 codec round-trips every string whose code units are
  all at most 255. The code does not: \<open>binaryToTypedArray\<close> succeeds and gives an array
  with as many elements as the string has code units, but for a string longer than the
  argument limit of the engine \<open>typedArrayToBinary\<close> of that array throws \<open>RangeError\<close>,
  since it spreads the array into one call of \<open>String.fromCharCode\<close>. The string of
  200000 letters \<open>a\<close> fails on an engine that accepts 65536 arguments.
\<close>

theorem latin1_text_round_trip_RangeError:
  assumes "list_all (\<lambda>c. c \<le> 0xFF) s" and "maxArguments < length s"
  shows "\<exists>h' ta. binaryToTypedArray h s = Inr (h', ta)
           \<and> length_elems ta = length s
           \<and> typedArrayToBinary maxArguments h' ta = Inl RangeError"
  using typedArrayToBinary_binaryToTypedArray [OF assms(1), of h maxArguments] assms(2)
  by auto

theorem latin1_text_round_trip_RangeError_witness:
  "list_all (\<lambda>c. c \<le> 0xFF) (replicate 200000 (0x61 :: 16 word))
   \<and> (65536 :: nat) < length (replicate 200000 (0x61 :: 16 word))
   \<and> (\<exists>h' ta. binaryToTypedArray [] (replicate 200000 0x61) = Inr (h', ta)
         \<and> length_elems ta = 200000
         \<and> typedArrayToBinary 65536 h' ta = Inl RangeError)"
proof -
  have a: "list_all (\<lambda>c. c \<le> 0xFF) (replicate 200000 (0x61 :: 16 word))"
    by (simp add: list_all_iff)
  have b: "(65536 :: nat) < length (replicate 200000 (0x61 :: 16 word))" by simp
  show ?thesis
    using a b latin1_text_round_trip_RangeError [OF a b, of "[]"] by simp
qed

subsection \<open>UTF-16\<close>

lemma length_u16_bytes: "length (u16_bytes le w) = 2"
  by (simp add: u16_bytes_def)

lemma length_concat_u16_bytes: "length (concat (map (u16_bytes le) s)) = 2 * length s"
  by (induction s) (simp_all add: length_u16_bytes)

lemma utf16ToTypedArray_eq:
  "utf16ToTypedArray le h s =
     Inr (h @ [concat (map (u16_bytes le) s)],
          \<lparr>kind = Uint8Array, buffer = length h, byteOffset = 0, length_elems = 2 * length s\<rparr>)"
proof -
  have m: "map (\<lambda>j. s ! j) [0..<length s] = s" by (rule map_nth)
  have loop: "for_loop (length s) (\<lambda>i. Inr (ToUint16 (charCodeAt s i)))
          0 (replicate (length s) 0) = Inr (length s, s)"
    using for_loop_fill [of "length s" "\<lambda>i. Inr (ToUint16 (charCodeAt s i))" "\<lambda>j. s ! j" 0]
    unfolding m by (simp add: charCodeAt_def ToUint16_def)
  show ?thesis
    unfolding utf16ToTypedArray_def loop
    by (simp add: alloc_def new_Uint8Array_of_buffer_def byteLength_def buffer_bytes_def
        length_concat_u16_bytes)
qed

text \<open>
  Claim C9. For every string, with or without unpaired surrogates, \<open>utf16ToTypedArray\<close>
  returns a byte array and no error; the array has twice as many elements as the string
  has code units, and its elements are the two bytes of each code unit, in the order of
  the string.
\<close>

theorem utf16ToTypedArray_total:
  "\<exists>h' ta. utf16ToTypedArray le h s = Inr (h', ta)
      \<and> kind ta = Uint8Array
      \<and> length_elems ta = 2 * length s
      \<and> elements h' ta = concat (map (u16_bytes le) s)
      \<and> length (elements h' ta) = 2 * length s"
  unfolding utf16ToTypedArray_eq
  by (simp add: elements_def buffer_bytes_def length_concat_u16_bytes)

theorem utf16ToTypedArray_total_witness:
  "result_bytes (utf16ToTypedArray True [] [0x41, 0xD800, 0x20AC]) = Inr [0x41, 0, 0, 0xD8, 0xAC, 0x20]
   \<and> result_bytes (utf16ToTypedArray False [] [0x41, 0xD800, 0x20AC]) = Inr [0, 0x41, 0xD8, 0, 0x20, 0xAC]"
proof -
  obtain h' ta where r: "utf16ToTypedArray True [] [0x41, 0xD800, 0x20AC] = Inr (h', ta)"
      "elements h' ta = concat (map (u16_bytes True) [0x41, 0xD800, 0x20AC])"
    using utf16ToTypedArray_total [of True "[]" "[0x41, 0xD800, 0x20AC]"] by blast
  obtain h2 tb where q: "utf16ToTypedArray False [] [0x41, 0xD800, 0x20AC] = Inr (h2, tb)"
      "elements h2 tb = concat (map (u16_bytes False) [0x41, 0xD800, 0x20AC])"
    using utf16ToTypedArray_total [of False "[]" "[0x41, 0xD800, 0x20AC]"] by blast
  show ?thesis
    unfolding r(1) q(1) by (simp add: result_bytes_def r(2) q(2) u16_bytes_def)
qed

subsection \<open>Hexadecimal\<close>

lemma HEX_MAP_zero: "HEX_MAP (js ''0'') = Some 0"
  by (simp add: HEX_MAP_def js_def)

lemma HEX_MAP_less_16: "HEX_MAP k = Some v \<Longrightarrow> v < 16"
  by (auto simp: HEX_MAP_def js_def split: if_splits)

lemma hex_byte_pair:
  assumes "i * 2 + 1 < length hex" "HEX_MAP [hex ! (i * 2)] = Some a"
    "HEX_MAP [hex ! (i * 2 + 1)] = Some b"
  shows "hex_byte hex i = Inr (of_nat (push_bit 4 a OR b))"
  using assms by (simp add: hex_byte_def charAt_def)

lemma hex_byte_lone:
  assumes "i * 2 + 1 = length hex" "HEX_MAP [hex ! (i * 2)] = Some b"
  shows "hex_byte hex i = Inr (of_nat b)"
  using assms by (simp add: hex_byte_def charAt_def HEX_MAP_zero)

lemma hexToTypedArray_odd:
  assumes odd: "odd (length hex)" and digits: "list_all (\<lambda>c. HEX_MAP [c] \<noteq> None) hex"
  shows "hexToTypedArray h hex =
     Inr (new_Uint8Array h
       (map (\<lambda>j. of_nat (push_bit 4 (hex_value (hex ! (j * 2))) OR hex_value (hex ! (j * 2 + 1))))
            [0..<length hex div 2]
        @ [of_nat (hex_value (last hex))]))"
proof -
  let ?n = "(length hex + 1) div 2"
  let ?f = "\<lambda>j. if j * 2 + 1 < length hex
      then of_nat (push_bit 4 (hex_value (hex ! (j * 2))) OR hex_value (hex ! (j * 2 + 1)))
      else (of_nat (hex_value (hex ! (j * 2))) :: byte)"
  have n: "?n = Suc (length hex div 2)" using odd by (auto elim: oddE)
  have len: "length hex = Suc (2 * (length hex div 2))" using odd by (auto elim: oddE)
  have dig: "\<And>k. k < length hex \<Longrightarrow> HEX_MAP [hex ! k] = Some (hex_value (hex ! k))"
    using digits by (auto simp: list_all_length hex_value_def)
  have body: "\<And>j. j < ?n \<Longrightarrow> hex_byte hex j = Inr (?f j)"
  proof -
    fix j assume j: "j < ?n"
    show "hex_byte hex j = Inr (?f j)"
    proof (cases "j * 2 + 1 < length hex")
      case True
      then show ?thesis using hex_byte_pair [of j hex] dig by simp
    next
      case False
      with j n len have e: "j * 2 + 1 = length hex" by linarith
      then show ?thesis using hex_byte_lone [of j hex] dig False by simp
    qed
  qed
  have loop: "for_loop ?n (hex_byte hex) 0 (replicate ?n 0) = Inr (?n, map ?f [0..<?n])"
    by (rule for_loop_fill) (rule body)
  have hex_ne: "hex \<noteq> []" using odd by auto
  have "length hex - 1 = length hex div 2 * 2" using len by linarith
  then have lst: "hex ! (length hex div 2 * 2) = last hex"
    using hex_ne by (simp add: last_conv_nth)
  have m: "map ?f [0..<?n] =
       map (\<lambda>j. of_nat (push_bit 4 (hex_value (hex ! (j * 2))) OR hex_value (hex ! (j * 2 + 1))))
            [0..<length hex div 2]
        @ [of_nat (hex_value (last hex))]"
    unfolding n using len lst by auto
  show ?thesis
    unfolding hexToTypedArray_def Let_def loop m [symmetric] by simp
qed


text \<open>
  Claim C2. For every string of odd length whose characters are all in the table of hex
  digits, \<open>hexToTypedArray\<close> succeeds: the characters before the last one are decoded in
  pairs, and the last character alone gives the last byte, whose value is the value of
  that digit (below 16: the high nibble is zero). The digit is neither dropped nor an
  error; \<open>hexToTypedArray("d")\<close> is the one byte \<open>0x0d\<close>.
\<close>

theorem hexToTypedArray_odd_length:
  assumes "odd (length hex)" and "list_all (\<lambda>c. HEX_MAP [c] \<noteq> None) hex"
  shows "result_bytes (hexToTypedArray h hex) =
           Inr (map (\<lambda>j. of_nat (push_bit 4 (hex_value (hex ! (j * 2)))
                                  OR hex_value (hex ! (j * 2 + 1))))
                    [0..<length hex div 2]
                @ [of_nat (hex_value (last hex))])
         \<and> hex_value (last hex) < 16"
proof -
  from assms(1) have "hex \<noteq> []" by auto
  then have "last hex \<in> set hex" by simp
  with assms(2) obtain v where "HEX_MAP [last hex] = Some v"
    by (auto simp: list_all_iff)
  then have "hex_value (last hex) < 16"
    using HEX_MAP_less_16 [of "[last hex]" v] by (simp add: hex_value_def)
  then show ?thesis
    unfolding hexToTypedArray_odd [OF assms] by (simp add: result_bytes_new_Uint8Array)
qed

theorem hexToTypedArray_odd_length_witness:
  "odd (length (js ''d'')) \<and> list_all (\<lambda>c. HEX_MAP [c] \<noteq> None) (js ''d'')
   \<and> result_bytes (hexToTypedArray [] (js ''d'')) = Inr [0x0D]
   \<and> odd (length (js ''7Fd'')) \<and> list_all (\<lambda>c. HEX_MAP [c] \<noteq> None) (js ''7Fd'')
   \<and> result_bytes (hexToTypedArray [] (js ''7Fd'')) = Inr [0x7F, 0x0D]"
proof -
  have a: "odd (length (js ''d''))" "list_all (\<lambda>c. HEX_MAP [c] \<noteq> None) (js ''d'')"
    by (simp_all add: js_def HEX_MAP_def)
  have b: "odd (length (js ''7Fd''))" "list_all (\<lambda>c. HEX_MAP [c] \<noteq> None) (js ''7Fd'')"
    by (simp_all add: js_def HEX_MAP_def)
  have "result_bytes (hexToTypedArray [] (js ''d'')) = Inr [0x0D]"
    using hexToTypedArray_odd_length [OF a, of "[]"]
    by (simp add: js_def hex_value_def HEX_MAP_def)
  moreover have "result_bytes (hexToTypedArray [] (js ''7Fd'')) = Inr [0x7F, 0x0D]"
    using hexToTypedArray_odd_length [OF b, of "[]"]
    by (simp add: js_def hex_value_def HEX_MAP_def)
  ultimately show ?thesis using a b by simp
qed

subsection \<open>Bit strings\<close>

lemma ceil8:
  fixes n :: nat assumes "n mod 8 \<noteq> 0" shows "(n + 7) div 8 = Suc (n div 8)"
proof -
  define q r where "q = n div 8" and "r = n mod 8"
  have n: "n = q * 8 + r" and r: "0 < r" "r < 8" using assms by (simp_all add: q_def r_def)
  have "(q * 8 + r + 7) div 8 = Suc q"
    by (rule div_nat_eqI) (use r in simp_all)
  then have "(n + 7) div 8 = Suc q" by (simp only: n)
  then show ?thesis by (simp only: q_def)
qed

lemma group_start:
  fixes n :: nat assumes "j < (n + 7) div 8" shows "j * 8 < n"
proof -
  define q r where "q = (n + 7) div 8" and "r = (n + 7) mod 8"
  have n: "n + 7 = q * 8 + r" and r: "r < 8" by (simp_all add: q_def r_def)
  from assms have "Suc j \<le> q" by (simp add: q_def)
  then have "Suc j * 8 \<le> q * 8" by (rule mult_le_mono1)
  with n r show ?thesis by simp
qed

lemma Number_0b_digits:
  assumes "ds \<noteq> []" "list_all isBinaryDigit ds"
  shows "Number_0b ds = Some (binary_value ds)"
proof -
  from assms(1) obtain x xs where r: "rev ds = x # xs" by (cases "rev ds") auto
  then have "x \<in> set ds" by (metis list.set_intros(1) set_rev)
  with assms(2) have "isBinaryDigit x" by (simp add: list_all_iff)
  then have "\<not> isWhiteSpace x" by (auto simp: isBinaryDigit_def isWhiteSpace_def)
  with r have "dropWhile isWhiteSpace (rev ds) = rev ds" by simp
  with assms show ?thesis by (simp add: Number_0b_def)
qed

lemma substring_group:
  assumes "i * 8 < length s"
  shows "substring s (i * 8) (i * 8 + 8) = take 8 (drop (i * 8) s)"
proof -
  have "min (i * 8 + 8) (length s) - i * 8 = min 8 (length s - i * 8)" by simp
  then show ?thesis
    using assms by (simp add: substring_def Let_def min_def max_def not_le)
qed

lemma binaryStringToTypedArray_digits:
  assumes "list_all isBinaryDigit s"
  shows "binaryStringToTypedArray h s =
     Inr (new_Uint8Array h
       (map (\<lambda>j. of_nat (binary_value (take 8 (drop (j * 8) s))))
            [0..<(length s + 7) div 8]))"
proof -
  let ?n = "(length s + 7) div 8"
  let ?body = "\<lambda>i. let base10 = Number_0b (substring s (i * 8) (i * 8 + 8))
                  in if isNaN base10
                     then Inl (Error (js ''Binary string must only contain 0 or 1''))
                     else Inr (ToUint8 base10)"
  let ?f = "\<lambda>j. (of_nat (binary_value (take 8 (drop (j * 8) s))) :: byte)"
  have body: "\<And>j. j < ?n \<Longrightarrow> ?body j = Inr (?f j)"
  proof -
    fix j assume "j < ?n"
    then have lt: "j * 8 < length s" by (rule group_start)
    then have ne: "take 8 (drop (j * 8) s) \<noteq> []" by simp
    have "set (take 8 (drop (j * 8) s)) \<subseteq> set s"
      by (meson set_take_subset set_drop_subset subset_trans)
    with assms have d: "list_all isBinaryDigit (take 8 (drop (j * 8) s))"
      by (auto simp: list_all_iff)
    show "?body j = Inr (?f j)"
      by (simp add: substring_group [OF lt] Number_0b_digits [OF ne d] isNaN_def ToUint8_def)
  qed
  have loop: "for_loop ?n ?body 0 (replicate ?n 0) = Inr (?n, map ?f [0..<?n])"
    by (rule for_loop_fill) (rule body)
  show ?thesis unfolding binaryStringToTypedArray_def Let_def
    using loop unfolding Let_def by simp
qed

lemma binary_value_leading_zeros:
  "binary_value (replicate k 0x30 @ ds) = binary_value ds"
proof -
  have "foldl (\<lambda>acc c. 2 * acc + (if c = (0x31 :: 16 word) then 1 else 0)) (0::nat) (replicate k 0x30) = 0"
    by (induction k) simp_all
  then show ?thesis by (simp add: binary_value_def)
qed


lemma last_group_split:
  assumes "length s mod 8 \<noteq> 0"
  shows "map (\<lambda>j. (of_nat (binary_value (take 8 (drop (j * 8) s))) :: byte))
             [0..<(length s + 7) div 8]
       = map (\<lambda>j. of_nat (binary_value (take 8 (drop (j * 8) s)))) [0..<length s div 8]
         @ [of_nat (binary_value (drop (length s div 8 * 8) s))]"
proof -
  have n: "(length s + 7) div 8 = Suc (length s div 8)" using assms by (rule ceil8)
  have "length s - length s div 8 * 8 < 8" by (simp add: modulo_nat_def [symmetric])
  then have "take 8 (drop (length s div 8 * 8) s) = drop (length s div 8 * 8) s" by simp
  then show ?thesis unfolding n by simp
qed

lemma padded_groups:
  fixes s :: jsstring
  defines "q \<equiv> length s div 8"
  defines "s' \<equiv> take (q * 8) s @ replicate (8 - length s mod 8) 0x30 @ drop (q * 8) s"
  assumes "length s mod 8 \<noteq> 0"
  shows "map (\<lambda>j. (of_nat (binary_value (take 8 (drop (j * 8) s'))) :: byte))
             [0..<(length s' + 7) div 8]
       = map (\<lambda>j. of_nat (binary_value (take 8 (drop (j * 8) s)))) [0..<q]
         @ [of_nat (binary_value (drop (q * 8) s))]"
proof -
  have q8: "q * 8 \<le> length s" unfolding q_def by simp
  have ld: "length (drop (q * 8) s) = length s mod 8" unfolding q_def by (simp add: modulo_nat_def)
  have len: "length s' = Suc q * 8"
    unfolding s'_def using q8 ld assms by (simp add: min_absorb2)
  then have n: "(length s' + 7) div 8 = Suc q" by simp
  have early: "\<And>j. j < q \<Longrightarrow> take 8 (drop (j * 8) s') = take 8 (drop (j * 8) s)"
  proof -
    fix j assume "j < q"
    then have b: "j * 8 + 8 \<le> q * 8" by simp
    have "take 8 (drop (j * 8) s') = take 8 (drop (j * 8) (take (q * 8) s))"
      unfolding s'_def using b q8 by (simp add: min_absorb2)
    also have "\<dots> = take 8 (drop (j * 8) s)"
      using b by (simp add: drop_take min_absorb1)
    finally show "take 8 (drop (j * 8) s') = take 8 (drop (j * 8) s)" .
  qed
  have "drop (q * 8) s' = replicate (8 - length s mod 8) 0x30 @ drop (q * 8) s"
    unfolding s'_def using q8 by (simp add: min_absorb2)
  then have final: "binary_value (take 8 (drop (q * 8) s')) = binary_value (drop (q * 8) s)"
    using ld by (simp add: binary_value_leading_zeros)
  show ?thesis unfolding n using early final by simp
qed


text \<open>
  Claim C3 says that a last group shorter than 8 bits is padded with zeros on the right,
  so that a trailing \<open>101\<close> is decoded as \<open>10100000\<close>. The code parses the short group
  as a binary literal of its own: \<open>101\<close> gives the byte 5, and \<open>10100000\<close> gives 160.
\<close>

theorem binaryStringToTypedArray_right_padding_counterexample:
  "result_bytes (binaryStringToTypedArray [] (js ''101'')) = Inr [0x05]
   \<and> result_bytes (binaryStringToTypedArray [] (js ''10100000'')) = Inr [0xA0]"
proof -
  have a: "list_all isBinaryDigit (js ''101'')" "list_all isBinaryDigit (js ''10100000'')"
    by (simp_all add: js_def isBinaryDigit_def)
  have u: "[0..<1] = [0]" by simp
  show ?thesis
    unfolding binaryStringToTypedArray_digits [OF a(1)] binaryStringToTypedArray_digits [OF a(2)]
      result_bytes_new_Uint8Array
    by (simp add: js_def binary_value_def)
qed

text \<open>
  Claim C3, amended. For every string of \<open>0\<close> and \<open>1\<close> whose length is not a multiple of 8,
  \<open>binaryStringToTypedArray\<close> succeeds; each full group of 8 gives a byte, and the last,
  short group is parsed as an unsigned binary literal of its own into the last byte.
  The result is that of the string whose last group is padded with zeros on the left
  to 8 bits.
\<close>

theorem binaryStringToTypedArray_short_group:
  assumes "list_all isBinaryDigit binary" and "length binary mod 8 \<noteq> 0"
  shows "result_bytes (binaryStringToTypedArray h binary) =
           Inr (map (\<lambda>j. of_nat (binary_value (take 8 (drop (j * 8) binary))))
                    [0..<length binary div 8]
                @ [of_nat (binary_value (drop (length binary div 8 * 8) binary))])
         \<and> result_bytes (binaryStringToTypedArray h
               (take (length binary div 8 * 8) binary
                @ replicate (8 - length binary mod 8) 0x30
                @ drop (length binary div 8 * 8) binary))
             = result_bytes (binaryStringToTypedArray h binary)"
proof -
  let ?padded = "take (length binary div 8 * 8) binary
                @ replicate (8 - length binary mod 8) 0x30
                @ drop (length binary div 8 * 8) binary"
  have "set (take (length binary div 8 * 8) binary) \<subseteq> set binary"
    "set (drop (length binary div 8 * 8) binary) \<subseteq> set binary"
    by (rule set_take_subset, rule set_drop_subset)
  with assms(1) have digits: "list_all isBinaryDigit ?padded"
    by (auto simp: list_all_iff isBinaryDigit_def)
  have a: "result_bytes (binaryStringToTypedArray h binary) =
           Inr (map (\<lambda>j. of_nat (binary_value (take 8 (drop (j * 8) binary))))
                    [0..<length binary div 8]
                @ [of_nat (binary_value (drop (length binary div 8 * 8) binary))])"
    unfolding binaryStringToTypedArray_digits [OF assms(1)] result_bytes_new_Uint8Array
      last_group_split [OF assms(2)] ..
  have b: "result_bytes (binaryStringToTypedArray h ?padded) =
           Inr (map (\<lambda>j. of_nat (binary_value (take 8 (drop (j * 8) binary))))
                    [0..<length binary div 8]
                @ [of_nat (binary_value (drop (length binary div 8 * 8) binary))])"
    unfolding binaryStringToTypedArray_digits [OF digits] result_bytes_new_Uint8Array
      padded_groups [OF assms(2)] ..
  show ?thesis using a b by simp
qed

theorem binaryStringToTypedArray_short_group_witness:
  "list_all isBinaryDigit (js ''0000000110100000101'')
   \<and> length (js ''0000000110100000101'') mod 8 \<noteq> 0
   \<and> result_bytes (binaryStringToTypedArray [] (js ''0000000110100000101''))
       = Inr [0x01, 0xA0, 0x05]
   \<and> result_bytes (binaryStringToTypedArray [] (js ''000000011010000000000101''))
       = Inr [0x01, 0xA0, 0x05]"
proof -
  have a: "list_all isBinaryDigit (js ''0000000110100000101'')"
    "length (js ''0000000110100000101'') mod 8 \<noteq> 0"
    by (simp_all add: js_def isBinaryDigit_def)
  have u: "[0..<2] = [0, Suc 0]" by (simp add: upt_rec)
  have r: "replicate 5 (0x30 :: 16 word) = [0x30, 0x30, 0x30, 0x30, 0x30]"
    by (simp add: eval_nat_numeral)
  show ?thesis
    using a binaryStringToTypedArray_short_group [OF a, of "[]"]
    by (simp add: js_def binary_value_def u r)
qed

subsection \<open>Windows-1252\<close>

lemma unat_byte_less: "unat (b :: byte) < 256"
  using unsigned_less [of b, where 'a = nat] by simp

lemma index_windows_1252_defined:
  "p < 128 \<Longrightarrow> \<exists>cp. index_windows_1252 p = Some cp \<and> cp < 0x10000"
proof -
  assume p: "p < 128"
  have "list_all (\<lambda>cp. cp < (0x10000 :: nat))
          [0x20AC, 0x0081, 0x201A, 0x0192, 0x201E, 0x2026, 0x2020, 0x2021,
           0x02C6, 0x2030, 0x0160, 0x2039, 0x0152, 0x008D, 0x017D, 0x008F,
           0x0090, 0x2018, 0x2019, 0x201C, 0x201D, 0x2022, 0x2013, 0x2014,
           0x02DC, 0x2122, 0x0161, 0x203A, 0x0153, 0x009D, 0x017E, 0x0178]"
    by simp
  then have "\<forall>p<32. [0x20AC, 0x0081, 0x201A, 0x0192, 0x201E, 0x2026, 0x2020, 0x2021,
               0x02C6, 0x2030, 0x0160, 0x2039, 0x0152, 0x008D, 0x017D, 0x008F,
               0x0090, 0x2018, 0x2019, 0x201C, 0x201D, 0x2022, 0x2013, 0x2014,
               0x02DC, 0x2122, 0x0161, 0x203A, 0x0153, 0x009D, 0x017E, 0x0178] ! p < (0x10000 :: nat)"
    unfolding list_all_length by simp
  with p show ?thesis by (auto simp: index_windows_1252_def)
qed

lemma single_byte_decoder_windows_1252:
  "single_byte_decoder index_windows_1252 bs =
     Some (map (\<lambda>b. if unat b < 0x80 then unat b
                     else the (index_windows_1252 (unat b - 0x80))) bs)"
proof (induction bs)
  case Nil
  show ?case by simp
next
  case (Cons b bs)
  have "unat b - 0x80 < 128" using unat_byte_less [of b] by simp
  then obtain cp where "index_windows_1252 (unat b - 0x80) = Some cp"
    using index_windows_1252_defined by blast
  with Cons show ?case by simp
qed

lemma code_point_units_BMP: "cp < 0x10000 \<Longrightarrow> code_point_units cp = [of_nat cp]"
  by (simp add: code_point_units_def)

lemma TextDecoder_windows1252_total:
  "TextDecoder_windows1252 bs = Inr (map windows1252_unit bs)"
proof -
  have "units_of_code_points
          (map (\<lambda>b. if unat b < 0x80 then unat b
                     else the (index_windows_1252 (unat b - 0x80))) bs)
        = map windows1252_unit bs"
  proof (induction bs)
    case Nil
    show ?case by (simp add: units_of_code_points_def)
  next
    case (Cons b bs)
    have "unat b - 0x80 < 128" using unat_byte_less [of b] by simp
    then obtain cp where cp: "index_windows_1252 (unat b - 0x80) = Some cp" "cp < 0x10000"
      using index_windows_1252_defined by blast
    show ?case
      using Cons cp
      by (simp add: units_of_code_points_def windows1252_unit_def code_point_units_BMP)
  qed
  then show ?thesis
    by (simp add: TextDecoder_windows1252_def single_byte_decoder_windows_1252)
qed

text \<open>
  Claim C4 says that \<open>typedArrayToWindows1252\<close> raises an error for a buffer that holds one
  of the bytes \<open>0x81\<close>, \<open>0x8D\<close>, \<open>0x8F\<close>, \<open>0x90\<close>, \<open>0x9D\<close>. The decoder of the host has an
  entry for each of them, and the buffer of these five bytes is decoded to a string.
\<close>

theorem typedArrayToWindows1252_undefined_bytes_counterexample:
  "typedArrayToWindows1252 [[0x81, 0x8D, 0x8F, 0x90, 0x9D]]
      \<lparr>kind = Uint8Array, buffer = 0, byteOffset = 0, length_elems = 5\<rparr>
   = Inr [0x81, 0x8D, 0x8F, 0x90, 0x9D]"
  by (simp add: typedArrayToWindows1252_def TextDecoder_windows1252_total
      typedArrayToUint8Array_def elements_def buffer_bytes_def windows1252_unit_def
      index_windows_1252_def)

text \<open>
  Claim C4, amended. \<open>typedArrayToWindows1252\<close> fails for no buffer: it returns a string
  with one code unit for each byte, and the bytes \<open>0x81\<close>, \<open>0x8D\<close>, \<open>0x8F\<close>, \<open>0x90\<close> and
  \<open>0x9D\<close>, which \<open>WINDOWS_1252_MAP\<close> leaves out, give the code units of the same value.
\<close>

theorem typedArrayToWindows1252_total:
  "typedArrayToWindows1252 h b
     = Inr (map windows1252_unit (elements h (typedArrayToUint8Array h b)))
   \<and> windows1252_unit 0x81 = 0x81 \<and> windows1252_unit 0x8D = 0x8D
   \<and> windows1252_unit 0x8F = 0x8F \<and> windows1252_unit 0x90 = 0x90
   \<and> windows1252_unit 0x9D = 0x9D"
  by (simp add: typedArrayToWindows1252_def TextDecoder_windows1252_total
      windows1252_unit_def index_windows_1252_def)

theorem typedArrayToWindows1252_total_witness:
  "typedArrayToWindows1252 [[0x41, 0x80, 0x81, 0xE9]]
      \<lparr>kind = Uint8Array, buffer = 0, byteOffset = 0, length_elems = 4\<rparr>
   = Inr [0x41, 0x20AC, 0x81, 0xE9]"
  using typedArrayToWindows1252_total [of "[[0x41, 0x80, 0x81, 0xE9]]"
      "\<lparr>kind = Uint8Array, buffer = 0, byteOffset = 0, length_elems = 4\<rparr>"]
  by (simp add: typedArrayToUint8Array_def elements_def buffer_bytes_def windows1252_unit_def
      index_windows_1252_def)

subsection \<open>Dispatchers\<close>

text \<open>
  Claim C7. For every label outside the sixteen of \<open>Encoding\<close>, and every input, both
  dispatchers end in the default branch: \<open>stringToTypedArray\<close> and \<open>typedArrayToString\<close>
  return the error \<open>Encoding ... not supported.\<close>, no codec runs and no array is made.
\<close>

theorem dispatchers_reject_unknown_encoding:
  assumes "encoding \<notin> set Encoding"
  shows "stringToTypedArray le h str encoding = Inl (not_supported encoding)
         \<and> typedArrayToString maxArguments h buf encoding = Inl (not_supported encoding)"
  using assms by (simp add: Encoding_def stringToTypedArray_def typedArrayToString_def)

theorem dispatchers_reject_unknown_encoding_witness:
  "stringToTypedArray True [] (js ''00'') (js ''nonsense'')
     = Inl (Error (js ''Encoding nonsense not supported.''))
   \<and> typedArrayToString 65536 [[0]]
        \<lparr>kind = Uint8Array, buffer = 0, byteOffset = 0, length_elems = 1\<rparr>
        (js ''nonsense'')
     = Inl (Error (js ''Encoding nonsense not supported.''))"
proof -
  have "js ''nonsense'' \<notin> set Encoding" by (simp add: Encoding_def js_def)
  from dispatchers_reject_unknown_encoding [OF this]
  show ?thesis by (simp add: not_supported_def js_def)
qed

subsection \<open>The generic converter\<close>

text \<open>
  Claim C1. For a typed array and any two labels, \<open>convertEncoding\<close> first turns the array
  into text with \<open>typedArrayToString\<close> under the source label, then turns that text into
  bytes with \<open>stringToTypedArray\<close> under the output label, and returns that array; an
  error of either step is the error of the call. The result is never a string. In the
  example the two bytes of the text \<open>ab\<close>, converted from \<open>utf8\<close> to \<open>hex\<close>, give the one
  byte \<open>0xAB\<close> and not the text \<open>6162\<close>.
\<close>

theorem convertEncoding_binary:
  "convertEncoding le maxArguments h (Arr v) encodingSource encodingOutput =
     (case typedArrayToString maxArguments h v encodingSource of
        Inl e \<Rightarrow> Inl e
      | Inr text \<Rightarrow>
          (case stringToTypedArray le h text encodingOutput of
             Inl e \<Rightarrow> Inl e
           | Inr (h', out) \<Rightarrow> Inr (h', Arr out)))
   \<and> result_value (convertEncoding le maxArguments h (Arr v) encodingSource encodingOutput) =
     (case typedArrayToString maxArguments h v encodingSource of
        Inl e \<Rightarrow> Inl e
      | Inr text \<Rightarrow>
          (case result_bytes (stringToTypedArray le h text encodingOutput) of
             Inl e \<Rightarrow> Inl e
           | Inr bytes \<Rightarrow> Inr (Inr bytes)))
   \<and> (\<forall>h' s. convertEncoding le maxArguments h (Arr v) encodingSource encodingOutput
                \<noteq> Inr (h', Str s))"
  by (auto simp: convertEncoding_def result_value_def result_bytes_def split: sum.splits)


theorem convertEncoding_binary_witness:
  "typedArrayToString 65536 [[0x61, 0x62]]
      \<lparr>kind = Uint8Array, buffer = 0, byteOffset = 0, length_elems = 2\<rparr> (js ''utf8'')
     = Inr (js ''ab'')
   \<and> result_bytes (stringToTypedArray True [[0x61, 0x62]] (js ''ab'') (js ''hex'')) = Inr [0xAB]
   \<and> result_value (convertEncoding True 65536 [[0x61, 0x62]]
        (Arr \<lparr>kind = Uint8Array, buffer = 0, byteOffset = 0, length_elems = 2\<rparr>)
        (js ''utf8'') (js ''hex''))
     = Inr (Inr [0xAB])
   \<and> typedArrayToString 65536 [[0x61, 0x62]]
      \<lparr>kind = Uint8Array, buffer = 0, byteOffset = 0, length_elems = 2\<rparr> (js ''hex'')
     = Inr (js ''6162'')"
proof -
  let ?v = "\<lparr>kind = Uint8Array, buffer = 0, byteOffset = 0, length_elems = 2\<rparr>"
  have enc: "typedArrayToString 65536 [[0x61, 0x62]] ?v (js ''utf8'') = Inr (js ''ab'')"
    by (simp add: typedArrayToString_def js_def typedArrayToUtf8_def TextDecoder_utf8_def
        typedArrayToUint8Array_def elements_def buffer_bytes_def units_of_code_points_def
        code_point_units_def drop_BOM_def)
  have dec: "result_bytes (stringToTypedArray True [[0x61, 0x62]] (js ''ab'') (js ''hex''))
      = Inr [0xAB]"
    by (simp add: stringToTypedArray_def js_def hexToTypedArray_def for_loop.simps hex_byte_def
        charAt_def HEX_MAP_def result_bytes_new_Uint8Array)
  have hex: "typedArrayToString 65536 [[0x61, 0x62]] ?v (js ''hex'') = Inr (js ''6162'')"
    by (simp add: typedArrayToString_def js_def typedArrayToHex_def typedArrayToUint8Array_def
        elements_def buffer_bytes_def padStart_def toString.simps digit_char_def)
  have "result_value (convertEncoding True 65536 [[0x61, 0x62]] (Arr ?v) (js ''utf8'')
      (js ''hex''))
      = Inr (Inr [0xAB])"
    using convertEncoding_binary [of True 65536 "[[0x61, 0x62]]" ?v "js ''utf8''" "js ''hex''",
        THEN conjunct2, THEN conjunct1]
    by (simp add: enc dec)
  with enc dec hex show ?thesis by simp
qed

subsection \<open>Base64\<close>

lemma length_base64_alphabet: "length base64_alphabet = 64"
  by (simp add: base64_alphabet_def js_def)

lemma distinct_base64_alphabet: "distinct base64_alphabet"
  by (simp add: base64_alphabet_def js_def)

lemma base64_alphabet_chars:
  "\<forall>c \<in> set base64_alphabet.
     c \<noteq> 0x3D \<and> c \<noteq> 0x2D \<and> c \<noteq> 0x5F \<and> \<not> isWhiteSpace c \<and> \<not> isAsciiWhitespace c"
  by (simp add: base64_alphabet_def js_def isWhiteSpace_def isAsciiWhitespace_def)

lemma base64_index_char: "i < 64 \<Longrightarrow> base64_index (base64_char i) = Some i"
  unfolding base64_index_def base64_char_def
  using map_of_zip_nth [of base64_alphabet "[0..<64]" i]
  by (simp add: length_base64_alphabet distinct_base64_alphabet)

lemma base64_char_in_alphabet: "i < 64 \<Longrightarrow> base64_char i \<in> set base64_alphabet"
  by (simp add: base64_char_def length_base64_alphabet)


lemma sextet_high:
  fixes a b :: nat
  assumes "b < 256"
  shows "((a mod 4) * 16 + b div 16) div 16 = a mod 4"
    and "((a mod 4) * 16 + b div 16) mod 16 = b div 16"
proof -
  have "b div 16 < 16" using assms by (simp add: less_mult_imp_div_less)
  then show "((a mod 4) * 16 + b div 16) div 16 = a mod 4"
    and "((a mod 4) * 16 + b div 16) mod 16 = b div 16" by simp_all
qed

lemma sextet_low:
  fixes b c :: nat
  assumes "c < 256"
  shows "((b mod 16) * 4 + c div 64) div 4 = b mod 16"
    and "((b mod 16) * 4 + c div 64) mod 4 = c div 64"
proof -
  have "c div 64 < 4" using assms by (simp add: less_mult_imp_div_less)
  then show "((b mod 16) * 4 + c div 64) div 4 = b mod 16"
    and "((b mod 16) * 4 + c div 64) mod 4 = c div 64" by simp_all
qed

lemma sextets_bound:
  "list_all (\<lambda>n. n < 256) ns \<Longrightarrow> list_all (\<lambda>s. s < 64) (sextets ns)"
proof (induction ns rule: sextets.induct)
  case (4 a b c rest)
  have "a div 4 < 64" "b div 16 < 16" "c div 64 < 4"
    using "4.prems" by (simp_all add: less_mult_imp_div_less)
  moreover have "a mod 4 * 16 \<le> 3 * 16" "b mod 16 * 4 \<le> 15 * 4"
    by (simp_all add: Suc_leI mult_le_mono1 flip: less_Suc_eq_le)
  ultimately show ?case using "4" by simp
next
  case (3 a b)
  have "a div 4 < 64" "b div 16 < 16"
    using "3" by (simp_all add: less_mult_imp_div_less)
  moreover have "a mod 4 * 16 \<le> 3 * 16" "b mod 16 * 4 \<le> 15 * 4"
    by (simp_all add: Suc_leI mult_le_mono1 flip: less_Suc_eq_le)
  ultimately show ?case by simp
next
  case (2 a)
  have "a div 4 < 64" using "2" by (simp add: less_mult_imp_div_less)
  moreover have "a mod 4 * 16 \<le> 3 * 16"
    by (simp add: Suc_leI mult_le_mono1 flip: less_Suc_eq_le)
  ultimately show ?case by simp
qed simp

lemma length_sextets_mod: "length (sextets ns) mod 4 \<noteq> 1"
  by (induction ns rule: sextets.induct) simp_all

lemma sextet_byte1:
  fixes a b :: nat
  shows "b < 256 \<Longrightarrow> a div 4 * 4 + ((a mod 4) * 16 + b div 16) div 16 = a"
    and "a div 4 * 4 + ((a mod 4) * 16) div 16 = a"
  by (simp_all add: sextet_high)

lemma sextet_byte2:
  fixes a b c :: nat
  shows "b < 256 \<Longrightarrow> c < 256 \<Longrightarrow>
      ((a mod 4) * 16 + b div 16) mod 16 * 16 + ((b mod 16) * 4 + c div 64) div 4 = b"
    and "b < 256 \<Longrightarrow> ((a mod 4) * 16 + b div 16) mod 16 * 16 + ((b mod 16) * 4) div 4 = b"
  by (simp_all add: sextet_high sextet_low)

lemma sextet_byte3:
  fixes b c :: nat
  shows "c < 256 \<Longrightarrow> ((b mod 16) * 4 + c div 64) mod 4 * 64 + c mod 64 = c"
  by (simp add: sextet_low)

lemma decode_sextets_sextets:
  "list_all (\<lambda>n. n < 256) ns \<Longrightarrow> decode_sextets (sextets ns) = map of_nat ns"
proof (induction ns rule: sextets.induct)
  case (4 a b c rest)
  then have lt: "b < 256" "c < 256" and IH: "decode_sextets (sextets rest) = map of_nat rest"
    by simp_all
  have "decode_sextets (sextets (a # b # c # rest)) =
      [of_nat (a div 4 * 4 + ((a mod 4) * 16 + b div 16) div 16),
       of_nat (((a mod 4) * 16 + b div 16) mod 16 * 16 + ((b mod 16) * 4 + c div 64) div 4),
       of_nat (((b mod 16) * 4 + c div 64) mod 4 * 64 + c mod 64)]
      @ decode_sextets (sextets rest)"
    by (simp only: sextets.simps decode_sextets.simps append_Cons append_Nil)
  then show ?case
    by (simp only: sextet_byte1 sextet_byte2 sextet_byte3 lt IH list.map append_Cons append_Nil)
next
  case (3 a b)
  then have lt: "b < 256" by simp
  have "decode_sextets (sextets [a, b]) =
      [of_nat (a div 4 * 4 + ((a mod 4) * 16 + b div 16) div 16),
       of_nat (((a mod 4) * 16 + b div 16) mod 16 * 16 + ((b mod 16) * 4) div 4)]"
    by (simp only: sextets.simps decode_sextets.simps)
  then show ?case
    by (simp only: sextet_byte1 sextet_byte2 lt list.map)
next
  case (2 a)
  have "decode_sextets (sextets [a]) = [of_nat (a div 4 * 4 + ((a mod 4) * 16) div 16)]"
    by (simp only: sextets.simps decode_sextets.simps)
  then show ?case by (simp only: sextet_byte1 list.map)
qed simp

lemma base64_encode_shape:
  "\<exists>k. base64_encode ns = map base64_char (sextets ns) @ replicate k 0x3D"
proof (induction ns rule: sextets.induct)
  case 1
  show ?case by simp
next
  case (2 a)
  have "base64_encode [a] = map base64_char (sextets [a]) @ replicate 2 0x3D"
    by (simp add: numeral_2_eq_2)
  then show ?case by blast
next
  case (3 a b)
  have "base64_encode [a, b] = map base64_char (sextets [a, b]) @ replicate 1 0x3D"
    by simp
  then show ?case by blast
next
  case (4 a b c rest)
  then obtain k where "base64_encode rest = map base64_char (sextets rest) @ replicate k 0x3D"
    by blast
  then have "base64_encode (a # b # c # rest)
      = map base64_char (sextets (a # b # c # rest)) @ replicate k 0x3D"
    by simp
  then show ?case by blast
qed


lemma unat_ucast_byte: "unat (ucast (c :: byte) :: 16 word) = unat c"
  using unat_byte_less [of c]
  by (simp add: unsigned_ucast_eq unsigned_take_bit_eq take_bit_eq_mod)

lemma ucast_byte_le: "(ucast (c :: byte) :: 16 word) \<le> 0xFF"
  using unat_byte_less [of c] by (simp add: word_le_nat_alt unat_ucast_byte)

lemma ucast_unit_byte: "(ucast (ucast (c :: byte) :: 16 word) :: byte) = c"
  by (simp add: ucast_up_ucast_id is_up)

lemma typedArrayToAscii_eq:
  "typedArrayToAscii maxArguments h b =
     (if maxArguments < length (elements h (typedArrayToUint8Array h b)) then Inl RangeError
      else Inr (base64_encode (map unat (elements h (typedArrayToUint8Array h b)))))"
proof -
  let ?bytes = "elements h (typedArrayToUint8Array h b)"
  have "\<not> list_ex (\<lambda>c. c > 0xFF) (map ucast ?bytes :: jsstring)"
    using ucast_byte_le by (auto simp: list_ex_iff not_less)
  then have "btoa (map ucast ?bytes) = Inr (base64_encode (map unat (map ucast ?bytes :: jsstring)))"
    unfolding btoa_def by (simp only: if_False)
  moreover have "map unat (map ucast ?bytes :: jsstring) = map unat ?bytes"
    by (simp add: unat_ucast_byte)
  ultimately have "btoa (map ucast ?bytes) = Inr (base64_encode (map unat ?bytes))"
    by (simp only:)
  then show ?thesis
    by (simp add: typedArrayToAscii_def typedArrayToBinary_def fromCharCode_def)
qed

lemma replace_all_single:
  "replace_all (\<lambda>c. c = a) [b] s = map (\<lambda>c. if c = a then b else c) s"
  by (induction s) (simp_all add: replace_all_def)

lemma replace_all_remove: "replace_all p [] s = filter (\<lambda>c. \<not> p c) s"
  by (induction s) (simp_all add: replace_all_def)

lemma js_single: "js ''_'' = [0x5F]" "js ''-'' = [0x2D]" "js ''/'' = [0x2F]" "js ''+'' = [0x2B]"
  by (simp_all add: js_def)

lemma typedArrayToAsciiUrl_eq:
  "typedArrayToAsciiUrl maxArguments h b =
     (if maxArguments < length (elements h (typedArrayToUint8Array h b)) then Inl RangeError
      else Inr (map (\<lambda>c. if c = 0x2F then 0x5F else c)
                (map (\<lambda>c. if c = 0x2B then 0x2D else c)
                  (filter (\<lambda>c. c \<noteq> 0x3D)
                    (base64_encode (map unat (elements h (typedArrayToUint8Array h b))))))))"
  by (simp add: typedArrayToAsciiUrl_def typedArrayToAscii_eq replace_all_single
      replace_all_remove js_single)

text \<open>
  Claim C6. For every typed array, a text that the URL-safe Base64 encoding returns
  holds no \<open>+\<close>, no \<open>/\<close> and no \<open>=\<close>; and the encoding does return a text whenever the
  array has no more bytes than the engine accepts arguments in a call.
\<close>

theorem typedArrayToBase64Url_alphabet:
  "(typedArrayToBase64Url maxArguments h b = Inr s
      \<longrightarrow> 0x2B \<notin> set s \<and> 0x2F \<notin> set s \<and> 0x3D \<notin> set s)
   \<and> (length (elements h (typedArrayToUint8Array h b)) \<le> maxArguments
      \<longrightarrow> (\<exists>s'. typedArrayToBase64Url maxArguments h b = Inr s'))"
  unfolding typedArrayToBase64Url_def typedArrayToAsciiUrl_eq
  by (auto split: if_splits)

theorem typedArrayToBase64Url_alphabet_witness:
  "typedArrayToBase64Url 65536 [[0xFB, 0xFF, 0xFE, 0xFF]]
      \<lparr>kind = Uint8Array, buffer = 0, byteOffset = 0, length_elems = 4\<rparr>
     = Inr (js ''-__-_w'')
   \<and> 0x2B \<notin> set (js ''-__-_w'') \<and> 0x2F \<notin> set (js ''-__-_w'')
   \<and> 0x3D \<notin> set (js ''-__-_w'')"
proof -
  let ?b = "\<lparr>kind = Uint8Array, buffer = 0, byteOffset = 0, length_elems = 4\<rparr>"
  have e: "typedArrayToBase64Url 65536 [[0xFB, 0xFF, 0xFE, 0xFF]] ?b = Inr (js ''-__-_w'')"
    by (simp add: typedArrayToBase64Url_def typedArrayToAsciiUrl_eq typedArrayToUint8Array_def
        elements_def buffer_bytes_def base64_char_def base64_alphabet_def js_def)
  from typedArrayToBase64Url_alphabet
    [of 65536 "[[0xFB, 0xFF, 0xFE, 0xFF]]" ?b "js ''-__-_w''", THEN conjunct1] e
  have "0x2B \<notin> set (js ''-__-_w'') \<and> 0x2F \<notin> set (js ''-__-_w'')
      \<and> 0x3D \<notin> set (js ''-__-_w'')"
    by (rule mp)
  with e show ?thesis by simp
qed

lemma strip_padding_no_pad: "0x3D \<notin> set d \<Longrightarrow> strip_padding d = d"
proof -
  assume n: "0x3D \<notin> set d"
  have "drop (length d - 2) d \<noteq> [0x3D, 0x3D]"
  proof
    assume "drop (length d - 2) d = [0x3D, 0x3D]"
    then have "0x3D \<in> set (drop (length d - 2) d)" by simp
    then show False using n by (meson in_set_dropD)
  qed
  moreover have "drop (length d - 1) d \<noteq> [0x3D]"
  proof
    assume "drop (length d - 1) d = [0x3D]"
    then have "0x3D \<in> set (drop (length d - 1) d)" by simp
    then show False using n by (meson in_set_dropD)
  qed
  ultimately show ?thesis by (simp add: strip_padding_def)
qed

lemma forgiving_base64_decode_chars:
  assumes "list_all (\<lambda>s. s < 64) sx" and "length sx mod 4 \<noteq> 1"
  shows "forgiving_base64_decode (map base64_char sx) = Some (decode_sextets sx)"
proof -
  let ?d = "map base64_char sx"
  have mem: "\<And>c. c \<in> set ?d \<Longrightarrow> c \<in> set base64_alphabet"
    using assms(1) by (auto simp: list_all_iff base64_char_in_alphabet)
  have ws: "filter (\<lambda>c. \<not> isAsciiWhitespace c) ?d = ?d"
    using mem base64_alphabet_chars by (intro filter_True) blast
  have "0x3D \<notin> set ?d" using mem base64_alphabet_chars by blast
  then have pad: "strip_padding ?d = ?d" by (rule strip_padding_no_pad)
  have idx: "\<And>c. c \<in> set ?d \<Longrightarrow> base64_index c \<noteq> None"
    using assms(1) by (auto simp: list_all_iff base64_index_char)
  have ex: "\<not> list_ex (\<lambda>c. base64_index c = None) ?d"
    using idx by (auto simp: list_ex_iff)
  have inv: "map ((\<lambda>c. the (base64_index c)) \<circ> base64_char) sx = sx"
    using assms(1) by (intro nth_equalityI) (simp_all add: list_all_length base64_index_char)
  show ?thesis
    unfolding forgiving_base64_decode_def Let_def ws pad
    using assms(2) ex by (simp add: inv)
qed


lemma asciiToTypedArray_chars:
  assumes "list_all (\<lambda>n. n < 256) ns"
  shows "asciiToTypedArray h (map base64_char (sextets ns))
           = Inr (new_Uint8Array h (map of_nat ns))"
proof -
  have "forgiving_base64_decode (map base64_char (sextets ns)) = Some (map of_nat ns)"
    using forgiving_base64_decode_chars [OF sextets_bound [OF assms] length_sextets_mod]
    by (simp add: decode_sextets_sextets [OF assms])
  then have "atob (map base64_char (sextets ns)) = Inr (map ucast (map of_nat ns :: byte list))"
    by (simp add: atob_def)
  moreover have "map (\<lambda>char. ToUint8 (charCodeAt char 0))
                   (split_units (map ucast (map of_nat ns :: byte list)))
                 = (map of_nat ns :: byte list)"
    by (simp add: split_units_def charCodeAt_def ToUint8_def ucast_unit_byte comp_def)
  ultimately show ?thesis by (simp add: asciiToTypedArray_def)
qed

lemma base64Url_round_trip_bytes:
  assumes "length (elements h (typedArrayToUint8Array h b)) \<le> maxArguments"
  shows "\<exists>s. typedArrayToAsciiUrl maxArguments h b = Inr s
      \<and> result_bytes (asciiUrlToTypedArray h' s)
          = Inr (elements h (typedArrayToUint8Array h b))"
proof -
  let ?bytes = "elements h (typedArrayToUint8Array h b)"
  let ?ns = "map unat ?bytes"
  let ?d = "map base64_char (sextets ?ns)"
  have ns: "list_all (\<lambda>n. n < 256) ?ns"
    by (simp add: list_all_iff unat_byte_less)
  obtain k where e: "base64_encode ?ns = ?d @ replicate k 0x3D"
    using base64_encode_shape by blast
  have mem: "\<And>c. c \<in> set ?d \<Longrightarrow> c \<in> set base64_alphabet"
    using sextets_bound [OF ns] by (auto simp: list_all_iff base64_char_in_alphabet)
  have f: "filter (\<lambda>c. c \<noteq> 0x3D) (base64_encode ?ns) = ?d"
    unfolding e using mem base64_alphabet_chars by (auto simp: filter_id_conv)
  let ?s = "map (\<lambda>c. if c = 0x2F then 0x5F else c) (map (\<lambda>c. if c = 0x2B then 0x2D else c) ?d)"
  have s: "typedArrayToAsciiUrl maxArguments h b = Inr ?s"
    unfolding typedArrayToAsciiUrl_eq f using assms by simp
  have nd: "\<And>c. c \<in> set ?d \<Longrightarrow> c \<noteq> 0x2D \<and> c \<noteq> 0x5F"
    using mem base64_alphabet_chars by blast
  have "map (\<lambda>c. if c = 0x5F then 0x2F else c) (map (\<lambda>c. if c = 0x2D then 0x2B else c) ?s)
      = map (\<lambda>c. if (if (if (if c = 0x2B then 0x2D else c) = 0x2F then 0x5F
                             else (if c = 0x2B then 0x2D else c)) = 0x2D then 0x2B
                        else (if (if c = 0x2B then 0x2D else c) = 0x2F then 0x5F
                              else (if c = 0x2B then 0x2D else c))) = 0x5F then 0x2F
                   else (if (if (if c = 0x2B then 0x2D else c) = 0x2F then 0x5F
                             else (if c = 0x2B then 0x2D else c)) = 0x2D then 0x2B
                         else (if (if c = 0x2B then 0x2D else c) = 0x2F then 0x5F
                               else (if c = 0x2B then 0x2D else c)))) ?d"
    by (simp only: map_map comp_def)
  also have "\<dots> = ?d"
    by (rule map_idI) (use nd in auto)
  finally have "map (\<lambda>c. if c = 0x5F then 0x2F else c)
      (map (\<lambda>c. if c = 0x2D then 0x2B else c) ?s) = ?d" .
  moreover have "filter (\<lambda>c. \<not> isWhiteSpace c) ?d = ?d"
    using mem base64_alphabet_chars by (intro filter_True) blast
  ultimately have "asciiUrlToTypedArray h' ?s = asciiToTypedArray h' ?d"
    by (simp only: asciiUrlToTypedArray_def replace_all_single replace_all_remove js_single)
  then have "result_bytes (asciiUrlToTypedArray h' ?s) = Inr (map of_nat ?ns)"
    by (simp add: asciiToTypedArray_chars [OF ns] result_bytes_new_Uint8Array)
  moreover have "map of_nat ?ns = ?bytes" by (simp add: comp_def)
  ultimately show ?thesis using s by simp
qed


text \<open>
  Within the argument limit of the engine the URL-safe Base64 codec round-trips every
  byte array, although the encoder has removed the padding: \<open>atob\<close> accepts text
  without padding.
\<close>

lemma base64Url_round_trip_within_limit:
  assumes "kind b = Uint8Array" and "length (elements h b) \<le> maxArguments"
  shows "\<exists>s. typedArrayToBase64Url maxArguments h b = Inr s
           \<and> result_bytes (base64UrlToTypedArray h' s) = Inr (elements h b)"
  using base64Url_round_trip_bytes [of h b maxArguments h'] assms
  by (simp add: typedArrayToBase64Url_def base64UrlToTypedArray_def
      typedArrayToUint8Array_Uint8Array)

text \<open>
  Claim C5 says that decoding the URL-safe Base64 encoding of a byte array returns the
  array, for every byte array. The code does not encode every byte array: the encoder
  goes through \<open>typedArrayToBinary\<close>, which spreads the array into one call of
  \<open>String.fromCharCode\<close>, so for an array with more bytes than the engine accepts
  arguments the encoding throws \<open>RangeError\<close> and there is no text to decode. An array of
  200000 bytes fails on an engine that accepts 65536 arguments.
\<close>

theorem typedArrayToBase64Url_RangeError:
  assumes "maxArguments < length (elements h (typedArrayToUint8Array h b))"
  shows "typedArrayToBase64Url maxArguments h b = Inl RangeError"
  using assms by (simp add: typedArrayToBase64Url_def typedArrayToAsciiUrl_eq)

theorem typedArrayToBase64Url_RangeError_witness:
  "(65536 :: nat) < length (elements [replicate 200000 0]
       (typedArrayToUint8Array [replicate 200000 0]
          \<lparr>kind = Uint8Array, buffer = 0, byteOffset = 0, length_elems = 200000\<rparr>))
   \<and> typedArrayToBase64Url 65536 [replicate 200000 0]
        \<lparr>kind = Uint8Array, buffer = 0, byteOffset = 0, length_elems = 200000\<rparr>
      = Inl RangeError"
proof -
  let ?b = "\<lparr>kind = Uint8Array, buffer = 0, byteOffset = 0, length_elems = 200000\<rparr>"
  have a: "(65536 :: nat) < length (elements [replicate 200000 0]
       (typedArrayToUint8Array [replicate 200000 0] ?b))"
    by (simp add: typedArrayToUint8Array_def elements_def buffer_bytes_def)
  show ?thesis
    using a typedArrayToBase64Url_RangeError [OF a] by simp
qed

end
